theory Spec2Isabelle
  imports Complex_Main "HOL-Library.Multiset"
begin

section \<open>Data model of the farm\<close>

text \<open>
  The farm module analyses the plots that the transport layer has decoded
  (\<^verbatim>\<open>getCurrentPhase\<close>, \<^verbatim>\<open>analyzeLands\<close>,
  \<^verbatim>\<open>getRemainingToMatureInfo\<close>), decides when to look at the farm again, and
  issues the remote operations.
\<close>

text \<open>
  Modelled from the spec: the \<^verbatim>\<open>PlantPhase\<close> enumeration is declared in
  \<^verbatim>\<open>config.js\<close>, outside the farm module. A phase tag is an enumeration value; the
  tags \<^verbatim>\<open>MATURE\<close> and \<^verbatim>\<open>DEAD\<close> are distinguished, and every other tag is a
  generic growing tag, kept here with its number. The farm module compares a tag with
  \<^verbatim>\<open>PlantPhase.MATURE\<close> and \<^verbatim>\<open>PlantPhase.DEAD\<close> only.
\<close>

datatype PlantPhase = MATURE | DEAD | GROWING nat

text \<open>
  Modelled from the spec: the decoding helper \<^verbatim>\<open>toTimeSec\<close> is declared in
  \<^verbatim>\<open>utils.js\<close>, outside the farm module. A timestamp is a number of server-clock
  seconds, with 0 for an absent or not yet scheduled time. The four time fields of a
  growth phase hold the value that the code reads through \<^verbatim>\<open>toTimeSec(...)\<close>, a
  natural number. The server time \<^verbatim>\<open>getServerTimeSec()\<close>, of the same kind, is the
  argument \<open>nowSec\<close> of the functions below.
\<close>

record phase_info =
  phase :: PlantPhase
  begin_time :: nat
  dry_time :: nat
  weeds_time :: nat
  insect_time :: nat

text \<open>
  A plant instance. \<^verbatim>\<open>dry_num\<close> is the value of \<^verbatim>\<open>toNum(plant.dry_num)\<close>;
  an absent \<^verbatim>\<open>phases\<close>, \<^verbatim>\<open>weed_owners\<close> or \<^verbatim>\<open>insect_owners\<close> array is
  the empty list (the code treats both alike).
\<close>

record plant_info =
  plant_id :: int
  phases :: "phase_info list"
  dry_num :: int
  weed_owners :: "int list"
  insect_owners :: "int list"

record land_info =
  land_id :: int
  unlocked :: bool
  plant :: "plant_info option"

section \<open>The current phase\<close>

text \<open>
  \<^verbatim>\<open>for (let i = phases.length - 1; i >= 0; i--)\<close>: the loop of
  \<^verbatim>\<open>getCurrentPhase\<close>, with \<open>n = i + 1\<close> indices still to visit. It returns
  the phase at the first index, counted from the end, whose begin time is positive and
  not after \<open>nowSec\<close>; \<open>None\<close> when it runs off the front of the list.
\<close>

fun getCurrentPhase_scan :: "nat \<Rightarrow> phase_info list \<Rightarrow> nat \<Rightarrow> phase_info option" where
  "getCurrentPhase_scan nowSec ps 0 = None"
| "getCurrentPhase_scan nowSec ps (Suc i) =
     (if 0 < begin_time (ps ! i) \<and> begin_time (ps ! i) \<le> nowSec then Some (ps ! i)
      else getCurrentPhase_scan nowSec ps i)"

text \<open>
  \<^verbatim>\<open>getCurrentPhase(phases, debug, landLabel)\<close>; \<open>nowSec\<close> is the value of
  \<^verbatim>\<open>getServerTimeSec()\<close>. The debug output is not modelled. \<open>None\<close> is the
  \<^verbatim>\<open>null\<close> returned for an empty list.
\<close>

definition getCurrentPhase :: "nat \<Rightarrow> phase_info list \<Rightarrow> phase_info option" where
  "getCurrentPhase nowSec ps =
     (if ps = [] then None
      else case getCurrentPhase_scan nowSec ps (length ps) of
             Some p \<Rightarrow> Some p
           | None \<Rightarrow> Some (ps ! 0))"

text \<open>A phase has started: its begin time is set (non-zero) and not in the future.\<close>

definition phaseStarted :: "nat \<Rightarrow> phase_info \<Rightarrow> bool" where
  "phaseStarted nowSec p = (0 < begin_time p \<and> begin_time p \<le> nowSec)"

text \<open>A phase with a tag and a begin time, for the concrete inputs below.\<close>

definition mkPhase :: "PlantPhase \<Rightarrow> nat \<Rightarrow> phase_info" where
  "mkPhase t b = \<lparr>phase = t, begin_time = b, dry_time = 0, weeds_time = 0, insect_time = 0\<rparr>"

section \<open>Remaining time to maturity\<close>

record remain_info =
  remainingSec :: int
  known :: bool

text \<open>
  The body of \<^verbatim>\<open>for (const p of phases)\<close> in \<^verbatim>\<open>getRemainingToMatureInfo\<close>.
  The loop state is the pair \<open>(matureBegin, earliestBegin)\<close>, both 0 at the start.
\<close>

definition remainStep :: "nat \<times> nat \<Rightarrow> phase_info \<Rightarrow> nat \<times> nat" where
  "remainStep acc p =
     (let matureBegin = fst acc; earliestBegin = snd acc; begin = begin_time p;
          earliestBegin' =
            (if 0 < begin \<and> (earliestBegin = 0 \<or> begin < earliestBegin) then begin
             else earliestBegin);
          matureBegin' =
            (if phase p = MATURE \<and> 0 < begin \<and> (matureBegin = 0 \<or> begin < matureBegin)
             then begin else matureBegin)
      in (matureBegin', earliestBegin'))"

text \<open>
  \<^verbatim>\<open>getRemainingToMatureInfo(phases, nowSec, totalGrowTime)\<close>. The differences are
  taken in the integers, as the code's numbers do not truncate; \<^verbatim>\<open>Math.max(0, ...)\<close>
  is written out.
\<close>

definition getRemainingToMatureInfo :: "phase_info list \<Rightarrow> nat \<Rightarrow> int \<Rightarrow> remain_info" where
  "getRemainingToMatureInfo ps nowSec totalGrowTime =
     (if ps = [] then \<lparr>remainingSec = 0, known = False\<rparr>
      else let acc = foldl remainStep (0, 0) ps;
               matureBegin = fst acc; earliestBegin = snd acc
           in if 0 < matureBegin
              then \<lparr>remainingSec = max 0 (int matureBegin - int nowSec), known = True\<rparr>
              else if 0 < totalGrowTime \<and> 0 < earliestBegin
              then (let elapsed = max 0 (int nowSec - int earliestBegin)
                    in \<lparr>remainingSec = max 0 (totalGrowTime - elapsed), known = True\<rparr>)
              else \<lparr>remainingSec = 0, known = False\<rparr>)"

text \<open>
  The begin times that are set (non-zero) among all phases, and among the phases tagged
  \<^verbatim>\<open>MATURE\<close>. The earliest begin time is the least element of such a set.
\<close>

definition setBegins :: "phase_info list \<Rightarrow> nat set" where
  "setBegins ps = set (filter (\<lambda>b. 0 < b) (map begin_time ps))"

definition matureBegins :: "phase_info list \<Rightarrow> nat set" where
  "matureBegins ps = setBegins (filter (\<lambda>p. phase p = MATURE) ps)"

section \<open>Land analysis\<close>

text \<open>
  One entry of \<^verbatim>\<open>result.landSnapshots\<close>, by its \<^verbatim>\<open>type\<close> field:
  \<^verbatim>\<open>lock\<close>, \<^verbatim>\<open>empty\<close>, \<^verbatim>\<open>dead\<close>, \<^verbatim>\<open>mature\<close> (with the total grow
  time) and \<^verbatim>\<open>growing\<close> (total grow time, remaining seconds, whether they are
  known). Each carries the plot id first. The display name is not modelled.
\<close>

datatype land_snapshot =
    LockSnap int
  | EmptySnap int
  | DeadSnap int
  | MatureSnap int int
  | GrowingSnap int int int bool

text \<open>
  The result object of \<^verbatim>\<open>analyzeLands\<close>. The fields that only feed the display
  (\<^verbatim>\<open>harvestableInfo\<close>, \<^verbatim>\<open>farmLines\<close> and the plant names) are left out.
\<close>

record analysis =
  harvestable :: "int list"
  needWater :: "int list"
  needWeed :: "int list"
  needBug :: "int list"
  growing :: "int list"
  empty :: "int list"
  dead :: "int list"
  landSnapshots :: "land_snapshot list"
  minRemainingSec :: "int option"
  serverTimeSec :: nat
  unlockedCount :: nat

definition initialAnalysis :: "nat \<Rightarrow> analysis" where
  "initialAnalysis nowSec =
     \<lparr>harvestable = [], needWater = [], needWeed = [], needBug = [], growing = [],
      empty = [], dead = [], landSnapshots = [], minRemainingSec = None,
      serverTimeSec = nowSec, unlockedCount = 0\<rparr>"

text \<open>
  The part of the loop body of \<^verbatim>\<open>analyzeLands\<close> that handles a plot whose current
  phase is neither \<^verbatim>\<open>DEAD\<close> nor \<^verbatim>\<open>MATURE\<close>: the three affliction flags, the
  \<^verbatim>\<open>growing\<close> list and the minimum of the known remaining times.
\<close>

definition analyzeGrowing ::
  "nat \<Rightarrow> int \<Rightarrow> int \<Rightarrow> plant_info \<Rightarrow> phase_info \<Rightarrow> analysis \<Rightarrow> analysis" where
  "analyzeGrowing nowSec totalGrowTime lid pl currentPhase result =
     (let dryNum = dry_num pl;
          dryTime = dry_time currentPhase;
          r1 = (if 0 < dryNum \<or> (0 < dryTime \<and> dryTime \<le> nowSec)
                then result\<lparr>needWater := needWater result @ [lid]\<rparr> else result);
          weedsTime = weeds_time currentPhase;
          hasWeeds = (weed_owners pl \<noteq> [] \<or> (0 < weedsTime \<and> weedsTime \<le> nowSec));
          r2 = (if hasWeeds then r1\<lparr>needWeed := needWeed r1 @ [lid]\<rparr> else r1);
          insectTime = insect_time currentPhase;
          hasBugs = (insect_owners pl \<noteq> [] \<or> (0 < insectTime \<and> insectTime \<le> nowSec));
          r3 = (if hasBugs then r2\<lparr>needBug := needBug r2 @ [lid]\<rparr> else r2);
          r4 = r3\<lparr>growing := growing r3 @ [lid]\<rparr>;
          remainInfo = getRemainingToMatureInfo (phases pl) nowSec totalGrowTime;
          remainingSec = remainingSec remainInfo;
          r5 = (if known remainInfo
                then (case minRemainingSec r4 of
                        None \<Rightarrow> r4\<lparr>minRemainingSec := Some remainingSec\<rparr>
                      | Some m \<Rightarrow> (if remainingSec < m
                                  then r4\<lparr>minRemainingSec := Some remainingSec\<rparr> else r4))
                else r4)
      in r5\<lparr>landSnapshots := landSnapshots r5 @
               [GrowingSnap lid totalGrowTime remainingSec (known remainInfo)]\<rparr>)"

text \<open>
  The loop body of \<^verbatim>\<open>for (const land of lands)\<close> in \<^verbatim>\<open>analyzeLands\<close>.
  \<open>getPlantGrowTime\<close> is the configuration lookup of the same name (the plant table
  is data loaded at start-up, so the lookup is a parameter).
\<close>

definition analyzeLand :: "nat \<Rightarrow> (int \<Rightarrow> int) \<Rightarrow> analysis \<Rightarrow> land_info \<Rightarrow> analysis" where
  "analyzeLand nowSec getPlantGrowTime result land =
     (let lid = land_id land in
      if \<not> unlocked land
      then result\<lparr>landSnapshots := landSnapshots result @ [LockSnap lid]\<rparr>
      else
        let r0 = result\<lparr>unlockedCount := unlockedCount result + 1\<rparr> in
        case plant land of
          None \<Rightarrow> r0\<lparr>empty := empty r0 @ [lid],
                     landSnapshots := landSnapshots r0 @ [EmptySnap lid]\<rparr>
        | Some pl \<Rightarrow>
            if phases pl = []
            then r0\<lparr>empty := empty r0 @ [lid],
                    landSnapshots := landSnapshots r0 @ [EmptySnap lid]\<rparr>
            else
              case getCurrentPhase nowSec (phases pl) of
                None \<Rightarrow> r0\<lparr>empty := empty r0 @ [lid]\<rparr>
              | Some currentPhase \<Rightarrow>
                  let phaseVal = phase currentPhase;
                      totalGrowTime = getPlantGrowTime (plant_id pl)
                  in if phaseVal = DEAD
                     then r0\<lparr>dead := dead r0 @ [lid],
                             landSnapshots := landSnapshots r0 @ [DeadSnap lid]\<rparr>
                     else if phaseVal = MATURE
                     then r0\<lparr>harvestable := harvestable r0 @ [lid],
                             landSnapshots := landSnapshots r0 @ [MatureSnap lid totalGrowTime]\<rparr>
                     else analyzeGrowing nowSec totalGrowTime lid pl currentPhase r0)"

text \<open>
  \<^verbatim>\<open>analyzeLands(lands)\<close>, with the server time \<^verbatim>\<open>getServerTimeSec()\<close> as
  \<open>nowSec\<close>.
\<close>

definition analyzeLands :: "nat \<Rightarrow> (int \<Rightarrow> int) \<Rightarrow> land_info list \<Rightarrow> analysis" where
  "analyzeLands nowSec getPlantGrowTime lands =
     foldl (analyzeLand nowSec getPlantGrowTime) (initialAnalysis nowSec) lands"

text \<open>
  The current phase of a plot: none for a plot without a plant or without phases.
\<close>

definition currentPhaseOf :: "nat \<Rightarrow> land_info \<Rightarrow> phase_info option" where
  "currentPhaseOf nowSec land =
     (case plant land of None \<Rightarrow> None | Some pl \<Rightarrow> getCurrentPhase nowSec (phases pl))"

text \<open>
  The four categories of the specification, for an unlocked plot: empty (no plant or no
  phases), dead (current phase \<^verbatim>\<open>DEAD\<close>), harvestable (current phase
  \<^verbatim>\<open>MATURE\<close>), growing otherwise. A locked plot has no category.
\<close>

datatype land_category = CatEmpty | CatDead | CatHarvestable | CatGrowing

definition landCategory :: "nat \<Rightarrow> land_info \<Rightarrow> land_category option" where
  "landCategory nowSec land =
     (if \<not> unlocked land then None
      else case currentPhaseOf nowSec land of
             None \<Rightarrow> Some CatEmpty
           | Some cp \<Rightarrow>
               Some (if phase cp = DEAD then CatDead
                     else if phase cp = MATURE then CatHarvestable
                     else CatGrowing))"

definition idsOfCategory :: "nat \<Rightarrow> land_category \<Rightarrow> land_info list \<Rightarrow> int list" where
  "idsOfCategory nowSec c lands =
     map land_id (filter (\<lambda>l. landCategory nowSec l = Some c) lands)"

text \<open>
  The affliction rules of the specification, on the plant and the current phase of a
  plot: a positive dryness counter or a dry-time threshold that is set and has passed;
  a weed (insect) owner marker or a weed-time (insect-time) threshold that is set and
  has passed.
\<close>

definition thresholdPassed :: "nat \<Rightarrow> nat \<Rightarrow> bool" where
  "thresholdPassed nowSec t = (t \<noteq> 0 \<and> t \<le> nowSec)"

definition wantsWater :: "nat \<Rightarrow> land_info \<Rightarrow> bool" where
  "wantsWater nowSec land =
     (case (plant land, currentPhaseOf nowSec land) of
        (Some pl, Some cp) \<Rightarrow> 0 < dry_num pl \<or> thresholdPassed nowSec (dry_time cp)
      | _ \<Rightarrow> False)"

definition wantsWeeding :: "nat \<Rightarrow> land_info \<Rightarrow> bool" where
  "wantsWeeding nowSec land =
     (case (plant land, currentPhaseOf nowSec land) of
        (Some pl, Some cp) \<Rightarrow> weed_owners pl \<noteq> [] \<or> thresholdPassed nowSec (weeds_time cp)
      | _ \<Rightarrow> False)"

definition wantsBugKill :: "nat \<Rightarrow> land_info \<Rightarrow> bool" where
  "wantsBugKill nowSec land =
     (case (plant land, currentPhaseOf nowSec land) of
        (Some pl, Some cp) \<Rightarrow> insect_owners pl \<noteq> [] \<or> thresholdPassed nowSec (insect_time cp)
      | _ \<Rightarrow> False)"

definition growingIdsWhere :: "nat \<Rightarrow> (land_info \<Rightarrow> bool) \<Rightarrow> land_info list \<Rightarrow> int list" where
  "growingIdsWhere nowSec f lands =
     map land_id (filter (\<lambda>l. landCategory nowSec l = Some CatGrowing \<and> f l) lands)"

text \<open>Plots for the concrete inputs below.\<close>

definition mkPlant :: "int \<Rightarrow> phase_info list \<Rightarrow> plant_info" where
  "mkPlant i ps = \<lparr>plant_id = i, phases = ps, dry_num = 0, weed_owners = [], insect_owners = []\<rparr>"

definition mkLand :: "int \<Rightarrow> bool \<Rightarrow> plant_info option \<Rightarrow> land_info" where
  "mkLand i u p = \<lparr>land_id = i, unlocked = u, plant = p\<rparr>"

text \<open>
  A farm with one plot of each kind (empty, locked, dead, harvestable, growing), and a
  farm of afflicted plots: a dry one, one with a weed owner marker whose weed time is
  still ahead, one whose insect time has passed, a mature dry one, and a healthy one.
\<close>

definition demoLands :: "land_info list" where
  "demoLands =
  [mkLand 1 True None, mkLand 2 False None,
   mkLand 3 True (Some (mkPlant 7 [mkPhase DEAD 10])),
   mkLand 4 True (Some (mkPlant 7 [mkPhase (GROWING 1) 10, mkPhase MATURE 20])),
   mkLand 5 True (Some (mkPlant 7 [mkPhase (GROWING 1) 10, mkPhase MATURE 200]))]"

definition demoAfflicted :: "land_info list" where
  "demoAfflicted =
  [mkLand 1 True (Some ((mkPlant 7 [mkPhase (GROWING 1) 10])\<lparr>dry_num := 1\<rparr>)),
   mkLand 2 True (Some ((mkPlant 7 [(mkPhase (GROWING 1) 10)\<lparr>weeds_time := 500\<rparr>])\<lparr>weed_owners := [9]\<rparr>)),
   mkLand 3 True (Some (mkPlant 7 [(mkPhase (GROWING 1) 10)\<lparr>insect_time := 50\<rparr>])),
   mkLand 4 True (Some ((mkPlant 7 [mkPhase MATURE 10])\<lparr>dry_num := 1\<rparr>)),
   mkLand 5 True (Some (mkPlant 7 [(mkPhase (GROWING 1) 10)\<lparr>dry_time := 500\<rparr>]))]"

section \<open>Yield optimizer\<close>

text \<open>
  The experience-per-hour model of the game configuration module. The code computes in
  double-precision numbers; the model computes in the reals, so \<^verbatim>\<open>0.2\<close> is one
  fifth and no rounding takes place.
\<close>

definition NO_FERT_PLANTS_PER_2_SEC :: real where
  "NO_FERT_PLANTS_PER_2_SEC = 18"

definition NORMAL_FERT_PLANTS_PER_2_SEC :: real where
  "NORMAL_FERT_PLANTS_PER_2_SEC = 12"

definition NO_FERT_PLANT_SPEED_PER_SEC :: real where
  "NO_FERT_PLANT_SPEED_PER_SEC = NO_FERT_PLANTS_PER_2_SEC / 2"

definition NORMAL_FERT_PLANT_SPEED_PER_SEC :: real where
  "NORMAL_FERT_PLANT_SPEED_PER_SEC = NORMAL_FERT_PLANTS_PER_2_SEC / 2"

definition FERT_PERCENT :: real where
  "FERT_PERCENT = 2 / 10"

definition FERT_MIN_REDUCE_SEC :: real where
  "FERT_MIN_REDUCE_SEC = 30"

text \<open>\<^verbatim>\<open>calcEffectiveGrowTime(growSec)\<close>.\<close>

definition calcEffectiveGrowTime :: "real \<Rightarrow> real" where
  "calcEffectiveGrowTime growSec =
     (let reduce = max (growSec * FERT_PERCENT) FERT_MIN_REDUCE_SEC
      in max 1 (growSec - reduce))"

text \<open>
  A seed row as \<^verbatim>\<open>normalizeSeedRow\<close> returns it (the raw shop export and the plant
  table it consults are data files; the display name is left out). The field
  \<open>seedUnlocked\<close> is the row's \<^verbatim>\<open>unlocked\<close>.
\<close>

record seed_info =
  seedId :: int
  goodsId :: int
  plantId :: int
  requiredLevel :: int
  price :: int
  seedUnlocked :: bool
  expHarvest :: real
  growTimeSec :: real

text \<open>
  A row of \<^verbatim>\<open>buildSeedYieldRows\<close>: the seed (the code spreads its fields into the
  row) and the two experience-per-hour figures.
\<close>

record seed_yield =
  seed :: seed_info
  farmExpPerHourNoFert :: real
  farmExpPerHourNormalFert :: real

record seed_yield_cache =
  cache_lands :: int
  cache_rows :: "seed_yield list"

text \<open>
  The locals of \<^verbatim>\<open>buildSeedYieldRows\<close>: the seconds needed to replant
  \<open>landCount\<close> plots, and the two cycle times of a seed.
\<close>

definition plantSecondsNoFert :: "int \<Rightarrow> real" where
  "plantSecondsNoFert landCount = real_of_int landCount / NO_FERT_PLANT_SPEED_PER_SEC"

definition plantSecondsNormalFert :: "int \<Rightarrow> real" where
  "plantSecondsNormalFert landCount = real_of_int landCount / NORMAL_FERT_PLANT_SPEED_PER_SEC"

definition cycleSecNoFert :: "int \<Rightarrow> seed_info \<Rightarrow> real" where
  "cycleSecNoFert landCount sd = growTimeSec sd + plantSecondsNoFert landCount"

definition cycleSecNormalFert :: "int \<Rightarrow> seed_info \<Rightarrow> real" where
  "cycleSecNormalFert landCount sd =
     (let growTimeNormalFert = calcEffectiveGrowTime (growTimeSec sd)
      in growTimeNormalFert + plantSecondsNormalFert landCount)"

text \<open>The loop body of \<^verbatim>\<open>buildSeedYieldRows\<close> for a seed that is not skipped.\<close>

definition seedYieldRow :: "int \<Rightarrow> seed_info \<Rightarrow> seed_yield" where
  "seedYieldRow landCount sd =
     (let expPerCycle = expHarvest sd;
          noFert = (if 0 < cycleSecNoFert landCount sd
                    then (real_of_int landCount * expPerCycle / cycleSecNoFert landCount sd) * 3600
                    else 0);
          normalFert = (if 0 < cycleSecNormalFert landCount sd
                        then (real_of_int landCount * expPerCycle / cycleSecNormalFert landCount sd) * 3600
                        else 0)
      in \<lparr>seed = sd, farmExpPerHourNoFert = noFert, farmExpPerHourNormalFert = normalFert\<rparr>)"

text \<open>
  The seeds that the loop does not skip
  (\<^verbatim>\<open>if (!seed.seedId || seed.growTimeSec <= 0) continue\<close>).
\<close>

definition seedUsable :: "seed_info \<Rightarrow> bool" where
  "seedUsable sd = (seedId sd \<noteq> 0 \<and> 0 < growTimeSec sd)"

text \<open>
  \<^verbatim>\<open>buildSeedYieldRows(lands)\<close>, with the normalized shop rows and the module's
  \<^verbatim>\<open>seedYieldCache\<close> as explicit arguments; it returns the rows and the cache it
  leaves behind.
\<close>

definition buildSeedYieldRows ::
  "seed_info list \<Rightarrow> seed_yield_cache \<Rightarrow> real \<Rightarrow> seed_yield list \<times> seed_yield_cache" where
  "buildSeedYieldRows seedShopRows seedYieldCache lands =
     (let landCount = max 1 \<lfloor>lands\<rfloor> in
      if cache_lands seedYieldCache = landCount \<and> cache_rows seedYieldCache \<noteq> []
      then (cache_rows seedYieldCache, seedYieldCache)
      else
        let rows = map (seedYieldRow landCount) (filter seedUsable seedShopRows)
        in (rows, \<lparr>cache_lands = landCount, cache_rows = rows\<rparr>))"

text \<open>The cache at module load: \<^verbatim>\<open>{ lands: 0, rows: [] }\<close>.\<close>

definition initialSeedYieldCache :: seed_yield_cache where
  "initialSeedYieldCache = \<lparr>cache_lands = 0, cache_rows = []\<rparr>"

text \<open>
  A cache is coherent with the shop rows when its rows, if any, are the rows computed
  for its land count.
\<close>

definition cacheCoherent :: "seed_info list \<Rightarrow> seed_yield_cache \<Rightarrow> bool" where
  "cacheCoherent seedShopRows c =
     (cache_rows c = [] \<or>
      cache_rows c = map (seedYieldRow (cache_lands c)) (filter seedUsable seedShopRows))"

text \<open>A seed with a grow time and a harvest experience, for the concrete inputs below.\<close>

definition mkSeed :: "int \<Rightarrow> real \<Rightarrow> real \<Rightarrow> seed_info" where
  "mkSeed i g e =
     \<lparr>seedId = i, goodsId = 0, plantId = 0, requiredLevel = 1, price = 0,
      seedUnlocked = True, expHarvest = e, growTimeSec = g\<rparr>"

section \<open>The cached snapshot and the refresh decision\<close>

text \<open>
  The snapshot that \<^verbatim>\<open>buildFarmSnapshot\<close> builds. Its fields
  \<^verbatim>\<open>minRemainingSec\<close>, \<^verbatim>\<open>serverTimeSec\<close>, \<^verbatim>\<open>landSnapshots\<close> and
  \<^verbatim>\<open>unlockedCount\<close> carry the prefix \<open>snap_\<close> here. \<^verbatim>\<open>minRemainingSec\<close> is
  \<^verbatim>\<open>null\<close> (\<open>None\<close>) or a number; \<^verbatim>\<open>serverTimeSec\<close> is always a number, so
  the code's test \<^verbatim>\<open>typeof ... === 'number'\<close> on it always succeeds.
\<close>

record farm_snapshot =
  emptyCount :: nat
  deadCount :: nat
  harvestableCount :: nat
  needWaterCount :: nat
  needWeedCount :: nat
  needBugCount :: nat
  snap_minRemainingSec :: "int option"
  snap_serverTimeSec :: nat
  snap_landSnapshots :: "land_snapshot list"
  snap_unlockedCount :: nat
  updatedAt :: int

text \<open>\<^verbatim>\<open>buildFarmSnapshot(status)\<close>; \<open>dateNow\<close> is the value of \<^verbatim>\<open>Date.now()\<close>.\<close>

definition buildFarmSnapshot :: "int \<Rightarrow> analysis \<Rightarrow> farm_snapshot" where
  "buildFarmSnapshot dateNow status =
     \<lparr>emptyCount = length (empty status),
      deadCount = length (dead status),
      harvestableCount = length (harvestable status),
      needWaterCount = length (needWater status),
      needWeedCount = length (needWeed status),
      needBugCount = length (needBug status),
      snap_minRemainingSec = minRemainingSec status,
      snap_serverTimeSec = serverTimeSec status,
      snap_landSnapshots = landSnapshots status,
      snap_unlockedCount = unlockedCount status,
      updatedAt = dateNow\<rparr>"

text \<open>
  The module state of the farm module (the \<^verbatim>\<open>let\<close> variables at its top, and
  \<^verbatim>\<open>lastPushTime\<close>). The last two fields are not variables of the code; they record
  what the code does, so that it can be stated: \<open>cyclesInFlight\<close> counts the calls of
  \<^verbatim>\<open>checkFarm\<close> that have passed the entry guard and not yet reached the
  \<^verbatim>\<open>finally\<close> block, and \<open>scheduledChecks\<close> lists the times at which the push
  handler scheduled an out-of-band check with \<^verbatim>\<open>setTimeout\<close>.
\<close>

record farm_state =
  isCheckingFarm :: bool
  isFirstFarmCheck :: bool
  lastFarmSnapshot :: "farm_snapshot option"
  forceFarmCheck :: bool
  lastUnlockedCount :: nat
  lastPushTime :: int
  cyclesInFlight :: nat
  scheduledChecks :: "int list"

definition initialFarmState :: farm_state where
  "initialFarmState =
     \<lparr>isCheckingFarm = False, isFirstFarmCheck = True, lastFarmSnapshot = None,
      forceFarmCheck = False, lastUnlockedCount = 0, lastPushTime = 0,
      cyclesInFlight = 0, scheduledChecks = []\<rparr>"

text \<open>\<^verbatim>\<open>shouldCheckFarmNow()\<close>, with the server time as \<open>nowSec\<close>.\<close>

definition shouldCheckFarmNow :: "nat \<Rightarrow> farm_state \<Rightarrow> bool" where
  "shouldCheckFarmNow nowSec st =
     (if isFirstFarmCheck st then True
      else if forceFarmCheck st then True
      else case lastFarmSnapshot st of
        None \<Rightarrow> True
      | Some snap \<Rightarrow>
          if 0 < emptyCount snap then True
          else if 0 < deadCount snap then True
          else if 0 < harvestableCount snap then True
          else if 0 < needWaterCount snap then True
          else if 0 < needWeedCount snap then True
          else if 0 < needBugCount snap then True
          else case snap_minRemainingSec snap of
            Some minRemaining \<Rightarrow>
              (let elapsed = max 0 (int nowSec - int (snap_serverTimeSec snap));
                   remaining = minRemaining - elapsed
               in if remaining \<le> 2 then True else False)
          | None \<Rightarrow> False)"

text \<open>
  The time to maturity that a snapshot predicts at server time \<open>nowSec\<close>: its minimum
  remaining time less the time elapsed since it was taken.
\<close>

definition extrapolatedRemaining :: "nat \<Rightarrow> farm_snapshot \<Rightarrow> int option" where
  "extrapolatedRemaining nowSec snap =
     map_option (\<lambda>m. m - max 0 (int nowSec - int (snap_serverTimeSec snap)))
       (snap_minRemainingSec snap)"

text \<open>A snapshot shows work when one of its six category counts is positive.\<close>

definition snapshotShowsWork :: "farm_snapshot \<Rightarrow> bool" where
  "snapshotShowsWork snap =
     (0 < emptyCount snap \<or> 0 < deadCount snap \<or> 0 < harvestableCount snap \<or>
      0 < needWaterCount snap \<or> 0 < needWeedCount snap \<or> 0 < needBugCount snap)"

text \<open>An idle snapshot with a given minimum remaining time, for the concrete inputs below.\<close>

definition idleSnapshot :: "int option \<Rightarrow> nat \<Rightarrow> farm_snapshot" where
  "idleSnapshot m t =
     \<lparr>emptyCount = 0, deadCount = 0, harvestableCount = 0, needWaterCount = 0,
      needWeedCount = 0, needBugCount = 0, snap_minRemainingSec = m,
      snap_serverTimeSec = t, snap_landSnapshots = [], snap_unlockedCount = 1,
      updatedAt = 0\<rparr>"

section \<open>Action executor\<close>

text \<open>
  The remote calls that the per-plot operations and the replant pipeline issue through
  \<^verbatim>\<open>sendMsgAsync\<close>: \<^verbatim>\<open>Fertilize\<close> (plot id, fertilizer id),
  \<^verbatim>\<open>RemovePlant\<close> (plot ids), \<^verbatim>\<open>BuyGoods\<close> (goods id, number, price) and
  \<^verbatim>\<open>Plant\<close> (seed id, plot id).
\<close>

datatype request =
    FertilizeReq int int
  | RemovePlantReq "int list"
  | BuyGoodsReq int int int
  | PlantReq int int

text \<open>
  A decoded reply. Only the reply to \<^verbatim>\<open>BuyGoods\<close> is read by the code: its
  \<^verbatim>\<open>get_items\<close> and \<^verbatim>\<open>cost_items\<close>, lists of (id, count) pairs.
\<close>

datatype reply = Ack | BuyGoodsReply "(int \<times> int) list" "(int \<times> int) list"

fun get_items :: "reply \<Rightarrow> (int \<times> int) list" where
  "get_items (BuyGoodsReply g c) = g"
| "get_items Ack = []"

fun cost_items :: "reply \<Rightarrow> (int \<times> int) list" where
  "cost_items (BuyGoodsReply g c) = c"
| "cost_items Ack = []"

text \<open>
  The remote service: given the calls issued so far and a new call, it answers with a
  reply, or the call fails (\<open>None\<close>: \<^verbatim>\<open>sendMsgAsync\<close> rejects or the reply does not
  decode, and the \<^verbatim>\<open>await\<close> throws). The functions below thread the trace of
  calls issued so far and return it extended by their own calls.
\<close>

type_synonym server = "request list \<Rightarrow> request \<Rightarrow> reply option"

definition NORMAL_FERTILIZER_ID :: int where
  "NORMAL_FERTILIZER_ID = 1011"

text \<open>
  The loop of \<^verbatim>\<open>fertilize\<close>: \<open>successCount\<close> and the trace are the loop state; a
  failed call leaves the loop (\<^verbatim>\<open>break\<close>). The pause between calls is not
  modelled.
\<close>

fun fertilize_loop :: "server \<Rightarrow> int \<Rightarrow> nat \<Rightarrow> request list \<Rightarrow> int list \<Rightarrow> nat \<times> request list" where
  "fertilize_loop srv fertilizerId successCount tr [] = (successCount, tr)"
| "fertilize_loop srv fertilizerId successCount tr (landId # rest) =
     (case srv tr (FertilizeReq landId fertilizerId) of
        None \<Rightarrow> (successCount, tr @ [FertilizeReq landId fertilizerId])
      | Some r \<Rightarrow>
          fertilize_loop srv fertilizerId (successCount + 1)
            (tr @ [FertilizeReq landId fertilizerId]) rest)"

text \<open>\<^verbatim>\<open>fertilize(landIds, fertilizerId)\<close>: the success count and the trace.\<close>

definition fertilize :: "server \<Rightarrow> request list \<Rightarrow> int list \<Rightarrow> int \<Rightarrow> nat \<times> request list" where
  "fertilize srv tr landIds fertilizerId = fertilize_loop srv fertilizerId 0 tr landIds"

text \<open>
  The loop of \<^verbatim>\<open>plantSeeds\<close>: a failed call is logged with \<^verbatim>\<open>logWarn\<close> (the
  plot id is appended to \<open>warned\<close>) and the loop goes on; \<open>sid\<close> is the seed id.
\<close>

fun plantSeeds_loop ::
  "server \<Rightarrow> int \<Rightarrow> nat \<Rightarrow> int list \<Rightarrow> request list \<Rightarrow> int list \<Rightarrow> nat \<times> int list \<times> request list" where
  "plantSeeds_loop srv sid successCount warned tr [] = (successCount, warned, tr)"
| "plantSeeds_loop srv sid successCount warned tr (landId # rest) =
     (case srv tr (PlantReq sid landId) of
        None \<Rightarrow>
          plantSeeds_loop srv sid successCount (warned @ [landId])
            (tr @ [PlantReq sid landId]) rest
      | Some r \<Rightarrow>
          plantSeeds_loop srv sid (successCount + 1) warned
            (tr @ [PlantReq sid landId]) rest)"

text \<open>
  \<^verbatim>\<open>plantSeeds(seedId, landIds)\<close>: the success count, the plot ids logged as failed,
  and the trace.
\<close>

definition plantSeeds :: "server \<Rightarrow> request list \<Rightarrow> int \<Rightarrow> int list \<Rightarrow> nat \<times> int list \<times> request list" where
  "plantSeeds srv tr sid landIds = plantSeeds_loop srv sid 0 [] tr landIds"

text \<open>
  Whether the call for the \<open>i\<close>-th plot id (counted from 0) succeeds when the calls
  for all earlier ids have been issued before it; \<open>mk\<close> makes the call for a plot id.
\<close>

definition callSucceeds :: "server \<Rightarrow> request list \<Rightarrow> (int \<Rightarrow> request) \<Rightarrow> int list \<Rightarrow> nat \<Rightarrow> bool" where
  "callSucceeds srv tr mk ids i = (srv (tr @ map mk (take i ids)) (mk (ids ! i)) \<noteq> None)"

text \<open>A service that rejects every call that names plot 2 alone, and accepts the rest.\<close>

definition rejectPlot2 :: server where
  "rejectPlot2 tr req =
     (case req of
        FertilizeReq l f \<Rightarrow> if l = 2 then None else Some Ack
      | PlantReq s l \<Rightarrow> if l = 2 then None else Some Ack
      | BuyGoodsReq g n p \<Rightarrow> Some (BuyGoodsReply [] [(1001, n * p)])
      | RemovePlantReq ls \<Rightarrow> Some Ack)"

section \<open>The replant pipeline\<close>

text \<open>The fields of \<^verbatim>\<open>getUserState()\<close> that the farm module reads.\<close>

record user_state =
  gid :: int
  level :: int
  gold :: int

text \<open>
  The seed that \<^verbatim>\<open>findBestSeed\<close> returns, as far as the pipeline reads it.
\<close>

record best_seed =
  best_seedId :: int
  best_goodsId :: int
  best_price :: int

text \<open>
  Step 3 of \<^verbatim>\<open>autoPlantEmptyLands\<close> up to the purchase: the plots to plant after
  the check against the gold at hand, or \<open>None\<close> where the code returns
  (\<^verbatim>\<open>if (canBuy <= 0) return\<close>). \<^verbatim>\<open>Math.floor(state.gold / bestSeed.price)\<close> is
  integer division rounding down; for a price of 0 the code's quotient is infinite or
  not a number and reaches this point only with negative gold, where it returns, as
  the model does with \<open>gold div 0 = 0\<close>.
\<close>

definition clampToGold :: "user_state \<Rightarrow> best_seed \<Rightarrow> int list \<Rightarrow> int list option" where
  "clampToGold state bestSeed landsToPlant =
     (let needCount = int (length landsToPlant);
          totalCost = best_price bestSeed * needCount
      in if gold state < totalCost
         then (let canBuy = gold state div best_price bestSeed
               in if canBuy \<le> 0 then None
                  else Some (take (nat canBuy) landsToPlant))
         else Some landsToPlant)"

text \<open>
  The rest of \<^verbatim>\<open>autoPlantEmptyLands\<close>: the purchase (a failed purchase ends the
  function), the gold paid, planting, and fertilizing the first \<open>planted\<close> plots.
\<close>

definition buyPlantFertilize ::
  "server \<Rightarrow> user_state \<Rightarrow> request list \<Rightarrow> best_seed \<Rightarrow> int list \<Rightarrow> user_state \<times> request list" where
  "buyPlantFertilize srv state tr bestSeed landsToPlant =
     (let buy = BuyGoodsReq (best_goodsId bestSeed) (int (length landsToPlant)) (best_price bestSeed)
      in case srv tr buy of
           None \<Rightarrow> (state, tr @ [buy])
         | Some buyReply \<Rightarrow>
             let actualSeedId =
                   (case get_items buyReply of
                      [] \<Rightarrow> best_seedId bestSeed
                    | gotItem # others \<Rightarrow>
                        if 0 < fst gotItem then fst gotItem else best_seedId bestSeed);
                 state' = state\<lparr>gold := foldl (\<lambda>g item. g - snd item) (gold state) (cost_items buyReply)\<rparr>;
                 res = plantSeeds srv (tr @ [buy]) actualSeedId landsToPlant;
                 planted = fst res;
                 tr' = snd (snd res);
                 plantedLands = (if 0 < planted then take planted landsToPlant else [])
             in if plantedLands \<noteq> []
                then (state', snd (fertilize srv tr' plantedLands NORMAL_FERTILIZER_ID))
                else (state', tr'))"

text \<open>
  \<^verbatim>\<open>autoPlantEmptyLands(deadLandIds, emptyLandIds)\<close>. Step 1 issues one
  \<^verbatim>\<open>RemovePlant\<close> call for the dead plots and goes on to plant them whether the
  call succeeds or not. Step 2, the choice of the seed (\<^verbatim>\<open>getFertilizerCount\<close>,
  \<^verbatim>\<open>ensureBestSeedCache\<close>, \<^verbatim>\<open>findBestSeed\<close>), is the parameter
  \<open>chooseSeed\<close>: from the trace so far and the plots to plant it yields the trace after
  its queries and \<open>None\<close> when a query throws, \<open>Some None\<close> when there is no seed,
  \<open>Some (Some s)\<close> for the chosen seed. The function returns the user state (its gold
  is updated in place by the code) and the trace.
\<close>

definition autoPlantEmptyLands ::
  "server \<Rightarrow> (request list \<Rightarrow> int list \<Rightarrow> best_seed option option \<times> request list) \<Rightarrow>
   user_state \<Rightarrow> request list \<Rightarrow> int list \<Rightarrow> int list \<Rightarrow> user_state \<times> request list" where
  "autoPlantEmptyLands srv chooseSeed state tr deadLandIds emptyLandIds =
     (let landsToPlant = (if deadLandIds \<noteq> [] then emptyLandIds @ deadLandIds else emptyLandIds);
          tr1 = (if deadLandIds \<noteq> [] then tr @ [RemovePlantReq deadLandIds] else tr)
      in if landsToPlant = [] then (state, tr1)
         else case chooseSeed tr1 landsToPlant of
                (None, tr2) \<Rightarrow> (state, tr2)
              | (Some None, tr2) \<Rightarrow> (state, tr2)
              | (Some (Some bestSeed), tr2) \<Rightarrow>
                  (case clampToGold state bestSeed landsToPlant of
                     None \<Rightarrow> (state, tr2)
                   | Some lands \<Rightarrow> buyPlantFertilize srv state tr2 bestSeed lands))"

text \<open>
  The plots and the trace with which \<^verbatim>\<open>autoPlantEmptyLands\<close> reaches its step 2.
\<close>

definition landsToReplant :: "int list \<Rightarrow> int list \<Rightarrow> int list" where
  "landsToReplant deadLandIds emptyLandIds = emptyLandIds @ deadLandIds"

definition traceAfterClear :: "request list \<Rightarrow> int list \<Rightarrow> request list" where
  "traceAfterClear tr deadLandIds =
     (if deadLandIds \<noteq> [] then tr @ [RemovePlantReq deadLandIds] else tr)"

text \<open>The plots that a trace plants, in order.\<close>

fun plantedPlot :: "request \<Rightarrow> int list" where
  "plantedPlot (PlantReq s l) = [l]"
| "plantedPlot (BuyGoodsReq g n p) = []"
| "plantedPlot (FertilizeReq l f) = []"
| "plantedPlot (RemovePlantReq ls) = []"

text \<open>The numbers bought by the purchases of a trace, in order.\<close>

fun boughtNumber :: "request \<Rightarrow> int list" where
  "boughtNumber (BuyGoodsReq g n p) = [n]"
| "boughtNumber (PlantReq s l) = []"
| "boughtNumber (FertilizeReq l f) = []"
| "boughtNumber (RemovePlantReq ls) = []"

text \<open>A seed choice that always offers goods 7, seed 20002, at a price of 10.\<close>

definition seedAt10 :: "request list \<Rightarrow> int list \<Rightarrow> best_seed option option \<times> request list" where
  "seedAt10 tr lands = (Some (Some \<lparr>best_seedId = 20002, best_goodsId = 7, best_price = 10\<rparr>), tr)"

section \<open>Scheduling controller\<close>

text \<open>
  \<^verbatim>\<open>checkFarm\<close> is an asynchronous function: between its entry and its
  \<^verbatim>\<open>finally\<close> block it waits for remote calls, and other callbacks of the module
  run meanwhile. The model therefore splits it into the steps that run without
  interruption, and lets the events of the module interleave freely.

  The entry of \<^verbatim>\<open>checkFarm\<close>, up to the first \<^verbatim>\<open>await\<close>. With the guard flag
  set, or without a user id (\<open>hasGid\<close> false), the call returns at once. Otherwise the
  flag is set; when \<^verbatim>\<open>shouldCheckFarmNow\<close> is false the call republishes the cached
  lines and returns through \<^verbatim>\<open>finally\<close> without waiting, so the flag is cleared
  again within the same step; else the cycle is in flight, waiting for
  \<^verbatim>\<open>getAllLands\<close>.
\<close>

definition checkFarm_enter :: "bool \<Rightarrow> nat \<Rightarrow> farm_state \<Rightarrow> farm_state" where
  "checkFarm_enter hasGid nowSec st =
     (if isCheckingFarm st \<or> \<not> hasGid then st
      else let st1 = st\<lparr>isCheckingFarm := True\<rparr> in
        if \<not> shouldCheckFarmNow nowSec st1 then st1\<lparr>isCheckingFarm := False\<rparr>
        else st1\<lparr>cyclesInFlight := cyclesInFlight st1 + 1\<rparr>)"

text \<open>
  The step of a cycle in flight after \<^verbatim>\<open>getAllLands\<close> has answered with a
  non-empty land list: the lands are analysed, the snapshot is replaced, and the
  first-check and forced flags are cleared. The cycle stays in flight for its remote
  actions.
\<close>

definition checkFarm_refresh ::
  "nat \<Rightarrow> int \<Rightarrow> (int \<Rightarrow> int) \<Rightarrow> land_info list \<Rightarrow> farm_state \<Rightarrow> farm_state" where
  "checkFarm_refresh nowSec dateNow getPlantGrowTime lands st =
     (let status = analyzeLands nowSec getPlantGrowTime lands
      in st\<lparr>lastFarmSnapshot := Some (buildFarmSnapshot dateNow status),
             lastUnlockedCount :=
               (if unlockedCount status \<noteq> 0 then unlockedCount status else lastUnlockedCount st),
             isFirstFarmCheck := False,
             forceFarmCheck := False\<rparr>)"

text \<open>
  The ways in which a cycle in flight ends: \<^verbatim>\<open>getAllLands\<close> returned no lands
  (\<^verbatim>\<open>return\<close>), the cycle ran to the end of the \<^verbatim>\<open>try\<close> block, or an error
  was thrown and caught. Each of them passes through the \<^verbatim>\<open>finally\<close> block.
\<close>

datatype cycle_end = NoLands | Completed | Errored

text \<open>The \<^verbatim>\<open>finally\<close> block of \<^verbatim>\<open>checkFarm\<close>, ending a cycle in flight.\<close>

definition checkFarm_finally :: "cycle_end \<Rightarrow> farm_state \<Rightarrow> farm_state" where
  "checkFarm_finally how st =
     st\<lparr>isCheckingFarm := False, cyclesInFlight := cyclesInFlight st - 1\<rparr>"

text \<open>
  \<^verbatim>\<open>onLandsChangedPush(lands)\<close>; \<open>now\<close> is the value of \<^verbatim>\<open>Date.now()\<close> in
  milliseconds. An accepted push schedules an out-of-band check 100 ms later
  (\<open>scheduledChecks\<close> records the time of the push).
\<close>

definition onLandsChangedPush :: "int \<Rightarrow> farm_state \<Rightarrow> farm_state" where
  "onLandsChangedPush now st =
     (if isCheckingFarm st then st
      else if now - lastPushTime st < 500 then st
      else st\<lparr>lastPushTime := now, forceFarmCheck := True,
              scheduledChecks := scheduledChecks st @ [now]\<rparr>)"

text \<open>
  The callback that an accepted push schedules:
  \<^verbatim>\<open>if (!isCheckingFarm) await checkFarm()\<close>.
\<close>

definition pushTimerFired :: "bool \<Rightarrow> nat \<Rightarrow> farm_state \<Rightarrow> farm_state" where
  "pushTimerFired hasGid nowSec st =
     (if \<not> isCheckingFarm st then checkFarm_enter hasGid nowSec st else st)"

text \<open>
  The events of the module: a call of \<^verbatim>\<open>checkFarm\<close> (by the loop of
  \<^verbatim>\<open>farmCheckLoop\<close> or by anyone else), the answer of \<^verbatim>\<open>getAllLands\<close> to a
  cycle in flight, the end of a cycle in flight, a \<^verbatim>\<open>landsChanged\<close> push, and the
  firing of a timer set by a push. An event that needs a cycle in flight changes
  nothing when there is none.
\<close>

datatype farm_event =
    CheckFarm bool nat
  | LandsArrived nat int "land_info list"
  | CycleEnds cycle_end
  | LandsChanged int
  | PushTimer bool nat

definition farmStep :: "(int \<Rightarrow> int) \<Rightarrow> farm_state \<Rightarrow> farm_event \<Rightarrow> farm_state" where
  "farmStep getPlantGrowTime st ev =
     (case ev of
        CheckFarm hasGid nowSec \<Rightarrow> checkFarm_enter hasGid nowSec st
      | LandsArrived nowSec dateNow lands \<Rightarrow>
          if 0 < cyclesInFlight st \<and> lands \<noteq> []
          then checkFarm_refresh nowSec dateNow getPlantGrowTime lands st else st
      | CycleEnds how \<Rightarrow> if 0 < cyclesInFlight st then checkFarm_finally how st else st
      | LandsChanged now \<Rightarrow> onLandsChangedPush now st
      | PushTimer hasGid nowSec \<Rightarrow> pushTimerFired hasGid nowSec st)"

text \<open>The state of the module after a sequence of events.\<close>

definition farmRun :: "(int \<Rightarrow> int) \<Rightarrow> farm_state \<Rightarrow> farm_event list \<Rightarrow> farm_state" where
  "farmRun getPlantGrowTime st evs = foldl (farmStep getPlantGrowTime) st evs"

text \<open>
  The two states of the controller: \<open>Checking\<close> while the guard flag is set,
  \<open>Idle\<close> otherwise.
\<close>

datatype controller_state = Idle | Checking

definition controllerState :: "farm_state \<Rightarrow> controller_state" where
  "controllerState st = (if isCheckingFarm st then Checking else Idle)"

text \<open>
  The guard flag and the count of cycles in flight agree: one cycle in flight while
  the flag is set, none otherwise.
\<close>

definition guardAgrees :: "farm_state \<Rightarrow> bool" where
  "guardAgrees st = (cyclesInFlight st = (if isCheckingFarm st then 1 else 0))"

text \<open>
  The accepted pushes are spaced: each came at least 500 ms after the one before, and
  the last of them at the time kept in \<^verbatim>\<open>lastPushTime\<close>.
\<close>

definition pushesSpaced :: "farm_state \<Rightarrow> bool" where
  "pushesSpaced st =
     (sorted_wrt (\<lambda>a b. a + 500 \<le> b) (scheduledChecks st) \<and>
      list_all (\<lambda>a. a \<le> lastPushTime st) (scheduledChecks st))"

section \<open>Verification: the current phase\<close>

lemma getCurrentPhase_scan_filter:
  "n \<le> length ps \<Longrightarrow>
   getCurrentPhase_scan nowSec ps n =
     (if filter (phaseStarted nowSec) (take n ps) = [] then None
      else Some (last (filter (phaseStarted nowSec) (take n ps))))"
proof (induction n)
  case 0
  then show ?case by simp
next
  case (Suc i)
  then have "take (Suc i) ps = take i ps @ [ps ! i]"
    by (simp add: take_Suc_conv_app_nth)
  moreover have "(0 < begin_time (ps ! i) \<and> begin_time (ps ! i) \<le> nowSec) = phaseStarted nowSec (ps ! i)"
    by (simp add: phaseStarted_def)
  ultimately show ?case using Suc
    by simp
qed

lemma getCurrentPhase_filter:
  "getCurrentPhase nowSec ps =
     (if ps = [] then None
      else if filter (phaseStarted nowSec) ps = [] then Some (ps ! 0)
      else Some (last (filter (phaseStarted nowSec) ps)))"
  by (simp add: getCurrentPhase_def getCurrentPhase_scan_filter)

lemma last_started_latest:
  "sorted (map begin_time ps) \<Longrightarrow> q \<in> set ps \<Longrightarrow> phaseStarted nowSec q \<Longrightarrow>
   begin_time q \<le> begin_time (last (filter (phaseStarted nowSec) ps))"
proof (induction ps rule: rev_induct)
  case Nil
  then show ?case by simp
next
  case (snoc x xs)
  then show ?case
    by (auto simp: sorted_append)
qed

text \<open>
  C1 (as amended). Whenever some phase of the list has started (its begin time is
  non-zero and not after the server time), \<^verbatim>\<open>getCurrentPhase\<close> returns the
  last started phase in list order: the phase at the greatest index whose phase has
  started. When the begin times do not decrease along the list, that phase is also the
  chronologically latest started one. For a non-empty list in which no phase has started
  (every begin time is zero or in the future) it returns the first listed phase.
\<close>

theorem getCurrentPhase_last_started:
  "((\<exists>p \<in> set ps. phaseStarted nowSec p) \<longrightarrow>
      getCurrentPhase nowSec ps = Some (last (filter (phaseStarted nowSec) ps)) \<and>
      (\<exists>i < length ps. last (filter (phaseStarted nowSec) ps) = ps ! i \<and>
          phaseStarted nowSec (ps ! i) \<and>
          (\<forall>j < length ps. i < j \<longrightarrow> \<not> phaseStarted nowSec (ps ! j))) \<and>
      (sorted (map begin_time ps) \<longrightarrow>
         (\<forall>q \<in> set ps. phaseStarted nowSec q \<longrightarrow>
            begin_time q \<le> begin_time (last (filter (phaseStarted nowSec) ps))))) \<and>
   (ps \<noteq> [] \<and> (\<forall>p \<in> set ps. begin_time p = 0 \<or> nowSec < begin_time p) \<longrightarrow>
      getCurrentPhase nowSec ps = Some (ps ! 0))"
proof (intro conjI impI)
  assume ex: "\<exists>p \<in> set ps. phaseStarted nowSec p"
  then have ne: "filter (phaseStarted nowSec) ps \<noteq> []" and nonempty: "ps \<noteq> []"
    by (auto simp: filter_empty_conv)
  show "getCurrentPhase nowSec ps = Some (last (filter (phaseStarted nowSec) ps))"
    using ne nonempty by (simp add: getCurrentPhase_filter)
  show "\<exists>i < length ps. last (filter (phaseStarted nowSec) ps) = ps ! i \<and>
          phaseStarted nowSec (ps ! i) \<and>
          (\<forall>j < length ps. i < j \<longrightarrow> \<not> phaseStarted nowSec (ps ! j))"
    using ex
  proof (induction ps rule: rev_induct)
    case Nil
    then show ?case by simp
  next
    case (snoc x xs)
    show ?case
    proof (cases "phaseStarted nowSec x")
      case True
      then show ?thesis
        by (intro exI [of _ "length xs"]) simp
    next
      case False
      with snoc.prems have "\<exists>p \<in> set xs. phaseStarted nowSec p" by auto
      from snoc.IH [OF this] obtain i where i: "i < length xs"
        "last (filter (phaseStarted nowSec) xs) = xs ! i" "phaseStarted nowSec (xs ! i)"
        "\<forall>j < length xs. i < j \<longrightarrow> \<not> phaseStarted nowSec (xs ! j)"
        by blast
      show ?thesis
      proof (intro exI [of _ i] conjI allI impI)
        show "i < length (xs @ [x])" using i(1) by simp
        show "last (filter (phaseStarted nowSec) (xs @ [x])) = (xs @ [x]) ! i"
          using i(1,2) False by (simp add: nth_append)
        show "phaseStarted nowSec ((xs @ [x]) ! i)"
          using i(1,3) by (simp add: nth_append)
        fix j assume "j < length (xs @ [x])" "i < j"
        then show "\<not> phaseStarted nowSec ((xs @ [x]) ! j)"
          using i(4) False by (cases "j < length xs") (auto simp: nth_append)
      qed
    qed
  qed
next
  assume "sorted (map begin_time ps)"
  then show "\<forall>q \<in> set ps. phaseStarted nowSec q \<longrightarrow>
            begin_time q \<le> begin_time (last (filter (phaseStarted nowSec) ps))"
    by (blast intro: last_started_latest)
next
  assume a: "ps \<noteq> [] \<and> (\<forall>p \<in> set ps. begin_time p = 0 \<or> nowSec < begin_time p)"
  then have "filter (phaseStarted nowSec) ps = []"
    by (auto simp: filter_empty_conv phaseStarted_def)
  with a show "getCurrentPhase nowSec ps = Some (ps ! 0)"
    by (simp add: getCurrentPhase_filter)
qed

text \<open>
  C1 as stated fails on a list whose begin times decrease: at server time 200 both
  phases have started, the code returns the one listed last, which began at 50, while
  the chronologically latest started phase began at 100.
\<close>

theorem getCurrentPhase_chronological_counterexample:
  "getCurrentPhase 200 [mkPhase (GROWING 2) 100, mkPhase (GROWING 1) 50] = Some (mkPhase (GROWING 1) 50) \<and>
   begin_time (mkPhase (GROWING 2) 100) \<noteq> 0 \<and> begin_time (mkPhase (GROWING 2) 100) \<le> 200 \<and>
   begin_time (mkPhase (GROWING 1) 50) < begin_time (mkPhase (GROWING 2) 100)"
  by (simp add: getCurrentPhase_def mkPhase_def)

theorem getCurrentPhase_last_started_witness:
  "getCurrentPhase 200 [mkPhase (GROWING 1) 50, mkPhase (GROWING 2) 100, mkPhase MATURE 300]
      = Some (mkPhase (GROWING 2) 100) \<and>
   getCurrentPhase 10 [mkPhase (GROWING 1) 50, mkPhase (GROWING 2) 0] = Some (mkPhase (GROWING 1) 50)"
  using getCurrentPhase_last_started [of "[mkPhase (GROWING 1) 50, mkPhase (GROWING 2) 100, mkPhase MATURE 300]" 200]
    getCurrentPhase_last_started [of "[mkPhase (GROWING 1) 50, mkPhase (GROWING 2) 0]" 10]
  by (simp add: phaseStarted_def mkPhase_def)

section \<open>Verification: remaining time to maturity\<close>

lemma finite_setBegins: "finite (setBegins ps)"
  by (simp add: setBegins_def)

lemma setBegins_snoc:
  "setBegins (xs @ [x]) = (if 0 < begin_time x then insert (begin_time x) (setBegins xs) else setBegins xs)"
  by (auto simp: setBegins_def)

lemma matureBegins_snoc:
  "matureBegins (xs @ [x]) =
     (if phase x = MATURE \<and> 0 < begin_time x then insert (begin_time x) (matureBegins xs)
      else matureBegins xs)"
  by (simp add: matureBegins_def setBegins_snoc)

lemma setBegins_pos: "b \<in> setBegins ps \<Longrightarrow> 0 < b"
  by (simp add: setBegins_def)

lemma Min_setBegins_pos: "setBegins ps \<noteq> {} \<Longrightarrow> 0 < Min (setBegins ps)"
  using Min_in [OF finite_setBegins, of ps] by (simp add: setBegins_pos)

lemma remainStep_snd:
  "snd (remainStep acc p) =
     (if 0 < begin_time p \<and> (snd acc = 0 \<or> begin_time p < snd acc) then begin_time p
      else snd acc)"
  by (simp add: remainStep_def Let_def)

lemma remainStep_fst:
  "fst (remainStep acc p) =
     (if phase p = MATURE \<and> 0 < begin_time p \<and> (fst acc = 0 \<or> begin_time p < fst acc)
      then begin_time p else fst acc)"
  by (simp add: remainStep_def Let_def)

lemma pick_earlier:
  "0 < m \<Longrightarrow>
   (if c \<and> 0 < (b::nat) \<and> (m = 0 \<or> b < m) then b else m) = (if c \<and> 0 < b then min b m else m)"
  by (auto simp: min_def)

lemma remainStep_earliest:
  "snd (foldl remainStep (0, 0) ps) = (if setBegins ps = {} then 0 else Min (setBegins ps))"
proof (induction ps rule: rev_induct)
  case Nil
  then show ?case by (simp add: setBegins_def)
next
  case (snoc x xs)
  show ?case
  proof (cases "setBegins xs = {}")
    case True
    with snoc show ?thesis
      by (simp add: remainStep_snd setBegins_snoc)
  next
    case False
    with snoc have ih: "snd (foldl remainStep (0, 0) xs) = Min (setBegins xs)" by simp
    have pos: "0 < Min (setBegins xs)" using False by (rule Min_setBegins_pos)
    have "snd (foldl remainStep (0, 0) (xs @ [x])) =
            (if True \<and> 0 < begin_time x then min (begin_time x) (Min (setBegins xs))
             else Min (setBegins xs))"
      using pick_earlier [OF pos, of True "begin_time x"]
      by (simp only: foldl_append foldl.simps remainStep_snd ih simp_thms)
    also have "\<dots> = Min (setBegins (xs @ [x]))"
    proof (cases "0 < begin_time x")
      case True
      then show ?thesis
        by (simp only: setBegins_snoc Min_insert [OF finite_setBegins False] if_True simp_thms)
    next
      case False
      then show ?thesis by (simp only: setBegins_snoc if_False simp_thms)
    qed
    finally show ?thesis
      by (simp add: setBegins_snoc False)
  qed
qed

lemma remainStep_mature:
  "fst (foldl remainStep (0, 0) ps) = (if matureBegins ps = {} then 0 else Min (matureBegins ps))"
proof (induction ps rule: rev_induct)
  case Nil
  then show ?case by (simp add: matureBegins_def setBegins_def)
next
  case (snoc x xs)
  have fin: "finite (matureBegins xs)" by (simp add: matureBegins_def finite_setBegins)
  show ?case
  proof (cases "matureBegins xs = {}")
    case True
    with snoc show ?thesis
      by (simp add: remainStep_fst matureBegins_snoc)
  next
    case False
    with snoc have ih: "fst (foldl remainStep (0, 0) xs) = Min (matureBegins xs)" by simp
    have pos: "0 < Min (matureBegins xs)"
      using False unfolding matureBegins_def by (rule Min_setBegins_pos)
    have "fst (foldl remainStep (0, 0) (xs @ [x])) =
            (if phase x = MATURE \<and> 0 < begin_time x
             then min (begin_time x) (Min (matureBegins xs))
             else Min (matureBegins xs))"
      using pick_earlier [OF pos, of "phase x = MATURE" "begin_time x"]
      by (simp only: foldl_append foldl.simps remainStep_fst ih simp_thms)
    also have "\<dots> = Min (matureBegins (xs @ [x]))"
    proof (cases "phase x = MATURE \<and> 0 < begin_time x")
      case True
      then show ?thesis
        by (simp only: matureBegins_snoc Min_insert [OF fin False] if_True simp_thms)
    next
      case False
      then show ?thesis by (simp only: matureBegins_snoc if_False simp_thms)
    qed
    finally show ?thesis
      by (simp add: matureBegins_snoc False)
  qed
qed

lemma getRemainingToMatureInfo_cases:
  "getRemainingToMatureInfo ps nowSec totalGrowTime =
     (if matureBegins ps \<noteq> {}
      then \<lparr>remainingSec = max 0 (int (Min (matureBegins ps)) - int nowSec), known = True\<rparr>
      else if 0 < totalGrowTime \<and> setBegins ps \<noteq> {}
      then \<lparr>remainingSec = max 0 (totalGrowTime - max 0 (int nowSec - int (Min (setBegins ps)))),
            known = True\<rparr>
      else \<lparr>remainingSec = 0, known = False\<rparr>)"
proof (cases "ps = []")
  case True
  then show ?thesis
    by (simp add: getRemainingToMatureInfo_def matureBegins_def setBegins_def)
next
  case False
  have m: "matureBegins ps \<noteq> {} \<Longrightarrow> 0 < Min (matureBegins ps)"
    unfolding matureBegins_def by (rule Min_setBegins_pos)
  show ?thesis
    using False m Min_setBegins_pos [of ps]
    by (simp add: getRemainingToMatureInfo_def Let_def remainStep_earliest remainStep_mature)
qed

text \<open>
  C3. \<^verbatim>\<open>getRemainingToMatureInfo\<close> computes the remaining time to maturity as
  follows. When some phase tagged \<^verbatim>\<open>MATURE\<close> has a non-zero begin time, the time
  is known and is the earliest such begin time minus the server time (exactly that
  difference while the begin time is not in the past, and never below zero). Otherwise,
  when the total grow time is positive and some phase has a non-zero begin time, the
  time is known and is the total grow time minus the time elapsed since the earliest
  non-zero begin time, floored at zero. Otherwise the time is unknown
  (\<^verbatim>\<open>known = false\<close>, 0 seconds). The returned seconds are never negative.
\<close>

theorem getRemainingToMatureInfo_spec:
  "(matureBegins ps \<noteq> {} \<longrightarrow>
      known (getRemainingToMatureInfo ps nowSec totalGrowTime) \<and>
      remainingSec (getRemainingToMatureInfo ps nowSec totalGrowTime) =
        max 0 (int (Min (matureBegins ps)) - int nowSec)) \<and>
   (matureBegins ps \<noteq> {} \<and> nowSec \<le> Min (matureBegins ps) \<longrightarrow>
      remainingSec (getRemainingToMatureInfo ps nowSec totalGrowTime) =
        int (Min (matureBegins ps)) - int nowSec) \<and>
   (matureBegins ps = {} \<and> 0 < totalGrowTime \<and> setBegins ps \<noteq> {} \<longrightarrow>
      known (getRemainingToMatureInfo ps nowSec totalGrowTime) \<and>
      remainingSec (getRemainingToMatureInfo ps nowSec totalGrowTime) =
        max 0 (totalGrowTime - max 0 (int nowSec - int (Min (setBegins ps))))) \<and>
   (matureBegins ps = {} \<and> \<not> (0 < totalGrowTime \<and> setBegins ps \<noteq> {}) \<longrightarrow>
      \<not> known (getRemainingToMatureInfo ps nowSec totalGrowTime) \<and>
      remainingSec (getRemainingToMatureInfo ps nowSec totalGrowTime) = 0) \<and>
   0 \<le> remainingSec (getRemainingToMatureInfo ps nowSec totalGrowTime)"
  by (simp add: getRemainingToMatureInfo_cases)


lemma setBegins_Nil: "setBegins [] = {}"
  by (simp add: setBegins_def)

lemma setBegins_Cons:
  "setBegins (x # xs) = (if 0 < begin_time x then insert (begin_time x) (setBegins xs) else setBegins xs)"
  by (auto simp: setBegins_def)

theorem getRemainingToMatureInfo_spec_witness:
  "known (getRemainingToMatureInfo [mkPhase (GROWING 1) 100, mkPhase MATURE 500] 200 600) \<and>
   remainingSec (getRemainingToMatureInfo [mkPhase (GROWING 1) 100, mkPhase MATURE 500] 200 600) = 300 \<and>
   known (getRemainingToMatureInfo [mkPhase (GROWING 1) 100, mkPhase MATURE 0] 200 600) \<and>
   remainingSec (getRemainingToMatureInfo [mkPhase (GROWING 1) 100, mkPhase MATURE 0] 200 600) = 500 \<and>
   \<not> known (getRemainingToMatureInfo [mkPhase (GROWING 1) 0, mkPhase MATURE 0] 200 600) \<and>
   remainingSec (getRemainingToMatureInfo [mkPhase (GROWING 1) 0, mkPhase MATURE 0] 200 600) = 0"
  using getRemainingToMatureInfo_spec [of "[mkPhase (GROWING 1) 100, mkPhase MATURE 500]" 200 600]
    getRemainingToMatureInfo_spec [of "[mkPhase (GROWING 1) 100, mkPhase MATURE 0]" 200 600]
    getRemainingToMatureInfo_spec [of "[mkPhase (GROWING 1) 0, mkPhase MATURE 0]" 200 600]
  by (simp add: matureBegins_def setBegins_Nil setBegins_Cons mkPhase_def)

section \<open>Verification: land analysis\<close>

lemma getCurrentPhase_Nil: "getCurrentPhase nowSec [] = None"
  by (simp add: getCurrentPhase_def)

lemma analyzeGrowing_fields:
  "empty (analyzeGrowing nowSec t lid pl cp r) = empty r"
  "dead (analyzeGrowing nowSec t lid pl cp r) = dead r"
  "harvestable (analyzeGrowing nowSec t lid pl cp r) = harvestable r"
  "growing (analyzeGrowing nowSec t lid pl cp r) = growing r @ [lid]"
  "unlockedCount (analyzeGrowing nowSec t lid pl cp r) = unlockedCount r"
  by (simp_all add: analyzeGrowing_def Let_def split: option.splits)

lemma analyzeGrowing_needWater:
  "needWater (analyzeGrowing nowSec t lid pl cp r) =
     needWater r @ (if 0 < dry_num pl \<or> thresholdPassed nowSec (dry_time cp) then [lid] else [])"
  by (auto simp: analyzeGrowing_def thresholdPassed_def Let_def split: option.splits)

lemma analyzeGrowing_needWeed:
  "needWeed (analyzeGrowing nowSec t lid pl cp r) =
     needWeed r @ (if weed_owners pl \<noteq> [] \<or> thresholdPassed nowSec (weeds_time cp) then [lid] else [])"
  by (auto simp: analyzeGrowing_def thresholdPassed_def Let_def split: option.splits)

lemma analyzeGrowing_needBug:
  "needBug (analyzeGrowing nowSec t lid pl cp r) =
     needBug r @ (if insect_owners pl \<noteq> [] \<or> thresholdPassed nowSec (insect_time cp) then [lid] else [])"
  by (auto simp: analyzeGrowing_def thresholdPassed_def Let_def split: option.splits)

lemma landCategory_cases:
  "landCategory nowSec l =
     (if \<not> unlocked l then None
      else case plant l of
             None \<Rightarrow> Some CatEmpty
           | Some pl \<Rightarrow>
               (case getCurrentPhase nowSec (phases pl) of
                  None \<Rightarrow> Some CatEmpty
                | Some cp \<Rightarrow> Some (if phase cp = DEAD then CatDead
                                  else if phase cp = MATURE then CatHarvestable
                                  else CatGrowing)))"
  by (simp add: landCategory_def currentPhaseOf_def split: option.splits)

lemma analyzeLand_empty:
  "empty (analyzeLand nowSec g r l) =
     empty r @ (if landCategory nowSec l = Some CatEmpty then [land_id l] else [])"
  by (simp add: analyzeLand_def landCategory_cases Let_def analyzeGrowing_fields getCurrentPhase_Nil
      split: option.splits)

lemma analyzeLand_dead:
  "dead (analyzeLand nowSec g r l) =
     dead r @ (if landCategory nowSec l = Some CatDead then [land_id l] else [])"
  by (simp add: analyzeLand_def landCategory_cases Let_def analyzeGrowing_fields getCurrentPhase_Nil
      split: option.splits)

lemma analyzeLand_harvestable:
  "harvestable (analyzeLand nowSec g r l) =
     harvestable r @ (if landCategory nowSec l = Some CatHarvestable then [land_id l] else [])"
  by (simp add: analyzeLand_def landCategory_cases Let_def analyzeGrowing_fields getCurrentPhase_Nil
      split: option.splits)

lemma analyzeLand_growing:
  "growing (analyzeLand nowSec g r l) =
     growing r @ (if landCategory nowSec l = Some CatGrowing then [land_id l] else [])"
  by (simp add: analyzeLand_def landCategory_cases Let_def analyzeGrowing_fields getCurrentPhase_Nil
      split: option.splits)

lemma analyzeLand_unlockedCount:
  "unlockedCount (analyzeLand nowSec g r l) = unlockedCount r + (if unlocked l then 1 else 0)"
  by (simp add: analyzeLand_def Let_def analyzeGrowing_fields split: option.splits)

lemma analyzeLand_needWater:
  "needWater (analyzeLand nowSec g r l) =
     needWater r @ (if landCategory nowSec l = Some CatGrowing \<and> wantsWater nowSec l
                    then [land_id l] else [])"
  by (simp add: analyzeLand_def landCategory_cases wantsWater_def currentPhaseOf_def Let_def
      analyzeGrowing_needWater getCurrentPhase_Nil split: option.splits)

lemma analyzeLand_needWeed:
  "needWeed (analyzeLand nowSec g r l) =
     needWeed r @ (if landCategory nowSec l = Some CatGrowing \<and> wantsWeeding nowSec l
                   then [land_id l] else [])"
  by (simp add: analyzeLand_def landCategory_cases wantsWeeding_def currentPhaseOf_def Let_def
      analyzeGrowing_needWeed getCurrentPhase_Nil split: option.splits)

lemma analyzeLand_needBug:
  "needBug (analyzeLand nowSec g r l) =
     needBug r @ (if landCategory nowSec l = Some CatGrowing \<and> wantsBugKill nowSec l
                  then [land_id l] else [])"
  by (simp add: analyzeLand_def landCategory_cases wantsBugKill_def currentPhaseOf_def Let_def
      analyzeGrowing_needBug getCurrentPhase_Nil split: option.splits)

lemma foldl_appends:
  assumes "\<And>r l. f (step r l) = f r @ (if P l then [k l] else [])"
  shows "f (foldl step r ls) = f r @ map k (filter P ls)"
  by (induction ls arbitrary: r) (simp_all add: assms)

lemma analyzeLands_categories:
  "empty (analyzeLands nowSec g lands) = idsOfCategory nowSec CatEmpty lands"
  "dead (analyzeLands nowSec g lands) = idsOfCategory nowSec CatDead lands"
  "harvestable (analyzeLands nowSec g lands) = idsOfCategory nowSec CatHarvestable lands"
  "growing (analyzeLands nowSec g lands) = idsOfCategory nowSec CatGrowing lands"
  unfolding analyzeLands_def idsOfCategory_def
  by (simp_all add: foldl_appends [where f = empty, OF analyzeLand_empty]
      foldl_appends [where f = dead, OF analyzeLand_dead]
      foldl_appends [where f = harvestable, OF analyzeLand_harvestable]
      foldl_appends [where f = growing, OF analyzeLand_growing] initialAnalysis_def)

lemma analyzeLands_flags:
  "needWater (analyzeLands nowSec g lands) = growingIdsWhere nowSec (wantsWater nowSec) lands"
  "needWeed (analyzeLands nowSec g lands) = growingIdsWhere nowSec (wantsWeeding nowSec) lands"
  "needBug (analyzeLands nowSec g lands) = growingIdsWhere nowSec (wantsBugKill nowSec) lands"
  unfolding analyzeLands_def growingIdsWhere_def
  by (simp_all add: foldl_appends [where f = needWater, OF analyzeLand_needWater]
      foldl_appends [where f = needWeed, OF analyzeLand_needWeed]
      foldl_appends [where f = needBug, OF analyzeLand_needBug] initialAnalysis_def)

lemma analyzeLands_unlockedCount:
  "unlockedCount (analyzeLands nowSec g lands) = length (filter unlocked lands)"
proof -
  have "unlockedCount (foldl (analyzeLand nowSec g) r lands) =
          unlockedCount r + length (filter unlocked lands)" for r
    by (induction lands arbitrary: r) (simp_all add: analyzeLand_unlockedCount)
  then show ?thesis
    by (simp add: analyzeLands_def initialAnalysis_def)
qed


lemma idsOfCategory_mset:
  "mset (idsOfCategory nowSec CatEmpty lands) + mset (idsOfCategory nowSec CatDead lands) +
   mset (idsOfCategory nowSec CatHarvestable lands) + mset (idsOfCategory nowSec CatGrowing lands) =
   mset (map land_id (filter unlocked lands))"
proof (induction lands)
  case Nil
  then show ?case by (simp add: idsOfCategory_def)
next
  case (Cons l ls)
  show ?case
  proof (cases "landCategory nowSec l")
    case None
    then have "\<not> unlocked l"
      by (auto simp: landCategory_def split: if_splits option.splits)
    with None Cons show ?thesis by (simp add: idsOfCategory_def)
  next
    case (Some c)
    then have "unlocked l"
      by (auto simp: landCategory_def split: if_splits)
    with Some Cons show ?thesis
      by (cases c) (simp_all add: idsOfCategory_def)
  qed
qed

lemma idsOfCategory_member:
  assumes "distinct (map land_id lands)" and "l \<in> set lands"
  shows "(land_id l \<in> set (idsOfCategory nowSec c lands)) = (landCategory nowSec l = Some c)"
proof
  assume "land_id l \<in> set (idsOfCategory nowSec c lands)"
  then obtain l' where l': "l' \<in> set lands" "landCategory nowSec l' = Some c" "land_id l' = land_id l"
    by (auto simp: idsOfCategory_def)
  from assms(1) have "inj_on land_id (set lands)" by (simp add: distinct_map)
  with l'(1,3) assms(2) have "l' = l" by (auto dest: inj_onD)
  with l'(2) show "landCategory nowSec l = Some c" by simp
next
  assume "landCategory nowSec l = Some c"
  with assms(2) show "land_id l \<in> set (idsOfCategory nowSec c lands)"
    by (auto simp: idsOfCategory_def)
qed

lemma idsOfCategory_disjoint:
  assumes "distinct (map land_id lands)" and "c \<noteq> c'"
  shows "set (idsOfCategory nowSec c lands) \<inter> set (idsOfCategory nowSec c' lands) = {}"
proof (rule ccontr)
  assume "set (idsOfCategory nowSec c lands) \<inter> set (idsOfCategory nowSec c' lands) \<noteq> {}"
  then obtain l where l: "l \<in> set lands" "landCategory nowSec l = Some c"
      "land_id l \<in> set (idsOfCategory nowSec c' lands)"
    by (auto simp: idsOfCategory_def)
  from idsOfCategory_member [OF assms(1) l(1)] l(3) have "landCategory nowSec l = Some c'"
    by simp
  with l(2) assms(2) show False by simp
qed

text \<open>
  C2. For every land list and server time, \<^verbatim>\<open>analyzeLands\<close> puts the id of each
  unlocked plot on exactly one of the lists \<^verbatim>\<open>empty\<close>, \<^verbatim>\<open>dead\<close>,
  \<^verbatim>\<open>harvestable\<close>, \<^verbatim>\<open>growing\<close>, the one of the plot's category, and the
  id of a locked plot on none; \<^verbatim>\<open>unlockedCount\<close> counts the unlocked plots only.
  So the sizes of the four lists sum to the unlocked count, together the lists hold the
  ids of the unlocked plots once each, and, plot ids being the identities of the plots
  (no id occurs twice in the input), the four lists are pairwise disjoint and a locked
  plot's id is on none of them.
\<close>

theorem analyzeLands_partition:
  "(let R = analyzeLands nowSec g lands in
    empty R = idsOfCategory nowSec CatEmpty lands \<and>
    dead R = idsOfCategory nowSec CatDead lands \<and>
    harvestable R = idsOfCategory nowSec CatHarvestable lands \<and>
    growing R = idsOfCategory nowSec CatGrowing lands \<and>
    unlockedCount R = length (filter unlocked lands) \<and>
    length (empty R) + length (dead R) + length (harvestable R) + length (growing R) =
      unlockedCount R \<and>
    mset (empty R) + mset (dead R) + mset (harvestable R) + mset (growing R) =
      mset (map land_id (filter unlocked lands)) \<and>
    (distinct (map land_id lands) \<longrightarrow>
       set (empty R) \<inter> set (dead R) = {} \<and>
       set (empty R) \<inter> set (harvestable R) = {} \<and>
       set (empty R) \<inter> set (growing R) = {} \<and>
       set (dead R) \<inter> set (harvestable R) = {} \<and>
       set (dead R) \<inter> set (growing R) = {} \<and>
       set (harvestable R) \<inter> set (growing R) = {} \<and>
       (\<forall>l \<in> set lands.
          (land_id l \<in> set (empty R)) = (landCategory nowSec l = Some CatEmpty) \<and>
          (land_id l \<in> set (dead R)) = (landCategory nowSec l = Some CatDead) \<and>
          (land_id l \<in> set (harvestable R)) = (landCategory nowSec l = Some CatHarvestable) \<and>
          (land_id l \<in> set (growing R)) = (landCategory nowSec l = Some CatGrowing) \<and>
          (\<not> unlocked l \<longrightarrow>
             land_id l \<notin> set (empty R) \<union> set (dead R) \<union> set (harvestable R) \<union> set (growing R)))))"
proof -
  have len: "length (idsOfCategory nowSec CatEmpty lands) + length (idsOfCategory nowSec CatDead lands) +
      length (idsOfCategory nowSec CatHarvestable lands) + length (idsOfCategory nowSec CatGrowing lands) =
      length (filter unlocked lands)"
    using arg_cong [OF idsOfCategory_mset [of nowSec lands], of size]
    by (simp flip: mset_filter)
  have locked: "\<not> unlocked l \<Longrightarrow> landCategory nowSec l = None" for l
    by (simp add: landCategory_def)
  show ?thesis
    unfolding Let_def analyzeLands_categories analyzeLands_unlockedCount
    using len idsOfCategory_mset [of nowSec lands]
    by (auto simp: idsOfCategory_disjoint idsOfCategory_member locked)
qed


theorem analyzeLands_partition_witness:
  "distinct (map land_id demoLands) \<and>
   empty (analyzeLands 100 (\<lambda>_. 0) demoLands) = [1] \<and>
   dead (analyzeLands 100 (\<lambda>_. 0) demoLands) = [3] \<and>
   harvestable (analyzeLands 100 (\<lambda>_. 0) demoLands) = [4] \<and>
   growing (analyzeLands 100 (\<lambda>_. 0) demoLands) = [5] \<and>
   unlockedCount (analyzeLands 100 (\<lambda>_. 0) demoLands) = 4"
  using analyzeLands_partition [of 100 "\<lambda>_. 0" demoLands]
  by (simp add: Let_def demoLands_def idsOfCategory_def landCategory_def currentPhaseOf_def
      getCurrentPhase_def mkLand_def mkPlant_def mkPhase_def)


lemma growingIdsWhere_subset:
  "set (growingIdsWhere nowSec f lands) \<subseteq> set (idsOfCategory nowSec CatGrowing lands)"
  by (auto simp: growingIdsWhere_def idsOfCategory_def)

lemma growingIdsWhere_member:
  assumes "distinct (map land_id lands)" and "l \<in> set lands"
  shows "(land_id l \<in> set (growingIdsWhere nowSec f lands)) =
           (landCategory nowSec l = Some CatGrowing \<and> f l)"
proof
  assume "land_id l \<in> set (growingIdsWhere nowSec f lands)"
  then obtain l' where l': "l' \<in> set lands" "landCategory nowSec l' = Some CatGrowing" "f l'"
      "land_id l' = land_id l"
    by (auto simp: growingIdsWhere_def)
  from assms(1) have "inj_on land_id (set lands)" by (simp add: distinct_map)
  with l'(1,4) assms(2) have "l' = l" by (auto dest: inj_onD)
  with l'(2,3) show "landCategory nowSec l = Some CatGrowing \<and> f l" by simp
next
  assume "landCategory nowSec l = Some CatGrowing \<and> f l"
  with assms(2) show "land_id l \<in> set (growingIdsWhere nowSec f lands)"
    by (auto simp: growingIdsWhere_def)
qed

lemma growingIdsWhere_intro:
  "l \<in> set lands \<Longrightarrow> landCategory nowSec l = Some CatGrowing \<Longrightarrow> f l \<Longrightarrow>
   land_id l \<in> set (growingIdsWhere nowSec f lands)"
  by (auto simp: growingIdsWhere_def)

lemma growing_has_phase:
  "landCategory nowSec l = Some CatGrowing \<Longrightarrow> plant l = Some pl \<Longrightarrow>
   \<exists>cp. currentPhaseOf nowSec l = Some cp"
  by (auto simp: landCategory_def split: if_splits option.splits)

text \<open>
  C4. The affliction flags are computed for growing plots only: each of
  \<^verbatim>\<open>needWater\<close>, \<^verbatim>\<open>needWeed\<close>, \<^verbatim>\<open>needBug\<close> lists, in input order, the
  ids of the growing plots that satisfy its rule, and is contained in \<^verbatim>\<open>growing\<close>.
  The water rule holds iff the dryness counter is positive or the current phase's
  dry-time threshold is non-zero and not after the server time; the weed (insect) rule
  holds iff the weed-owner (insect-owner) marker set is non-empty or the corresponding
  threshold is non-zero and not after the server time. In particular a growing plot with
  a non-empty owner marker set is flagged whatever its threshold.
\<close>

theorem analyzeLands_afflictions:
  "(let R = analyzeLands nowSec g lands in
    needWater R = growingIdsWhere nowSec (wantsWater nowSec) lands \<and>
    needWeed R = growingIdsWhere nowSec (wantsWeeding nowSec) lands \<and>
    needBug R = growingIdsWhere nowSec (wantsBugKill nowSec) lands \<and>
    set (needWater R) \<subseteq> set (growing R) \<and>
    set (needWeed R) \<subseteq> set (growing R) \<and>
    set (needBug R) \<subseteq> set (growing R) \<and>
    (\<forall>l \<in> set lands. \<forall>pl cp. plant l = Some pl \<and> currentPhaseOf nowSec l = Some cp \<longrightarrow>
       wantsWater nowSec l = (0 < dry_num pl \<or> (dry_time cp \<noteq> 0 \<and> dry_time cp \<le> nowSec)) \<and>
       wantsWeeding nowSec l =
         (weed_owners pl \<noteq> [] \<or> (weeds_time cp \<noteq> 0 \<and> weeds_time cp \<le> nowSec)) \<and>
       wantsBugKill nowSec l =
         (insect_owners pl \<noteq> [] \<or> (insect_time cp \<noteq> 0 \<and> insect_time cp \<le> nowSec))) \<and>
    (\<forall>l \<in> set lands. \<forall>pl. landCategory nowSec l = Some CatGrowing \<and> plant l = Some pl \<longrightarrow>
       (weed_owners pl \<noteq> [] \<longrightarrow> land_id l \<in> set (needWeed R)) \<and>
       (insect_owners pl \<noteq> [] \<longrightarrow> land_id l \<in> set (needBug R))) \<and>
    (distinct (map land_id lands) \<longrightarrow>
       (\<forall>l \<in> set lands.
          (land_id l \<in> set (needWater R)) =
            (landCategory nowSec l = Some CatGrowing \<and> wantsWater nowSec l) \<and>
          (land_id l \<in> set (needWeed R)) =
            (landCategory nowSec l = Some CatGrowing \<and> wantsWeeding nowSec l) \<and>
          (land_id l \<in> set (needBug R)) =
            (landCategory nowSec l = Some CatGrowing \<and> wantsBugKill nowSec l))))"
proof -
  have rules: "wantsWater nowSec l = (0 < dry_num pl \<or> (dry_time cp \<noteq> 0 \<and> dry_time cp \<le> nowSec))"
    "wantsWeeding nowSec l = (weed_owners pl \<noteq> [] \<or> (weeds_time cp \<noteq> 0 \<and> weeds_time cp \<le> nowSec))"
    "wantsBugKill nowSec l = (insect_owners pl \<noteq> [] \<or> (insect_time cp \<noteq> 0 \<and> insect_time cp \<le> nowSec))"
    if "plant l = Some pl" "currentPhaseOf nowSec l = Some cp" for l pl cp
    using that by (simp_all add: wantsWater_def wantsWeeding_def wantsBugKill_def thresholdPassed_def)
  have owners: "land_id l \<in> set (growingIdsWhere nowSec (wantsWeeding nowSec) lands)"
    if "l \<in> set lands" "landCategory nowSec l = Some CatGrowing" "plant l = Some pl"
      "weed_owners pl \<noteq> []" for l pl
  proof -
    from growing_has_phase [OF that(2,3)] obtain cp where "currentPhaseOf nowSec l = Some cp" ..
    with that(3,4) have "wantsWeeding nowSec l" by (simp add: rules)
    with that(1,2) show ?thesis by (rule growingIdsWhere_intro)
  qed
  have bugs: "land_id l \<in> set (growingIdsWhere nowSec (wantsBugKill nowSec) lands)"
    if "l \<in> set lands" "landCategory nowSec l = Some CatGrowing" "plant l = Some pl"
      "insect_owners pl \<noteq> []" for l pl
  proof -
    from growing_has_phase [OF that(2,3)] obtain cp where "currentPhaseOf nowSec l = Some cp" ..
    with that(3,4) have "wantsBugKill nowSec l" by (simp add: rules)
    with that(1,2) show ?thesis by (rule growingIdsWhere_intro)
  qed
  show ?thesis
    unfolding Let_def analyzeLands_categories analyzeLands_flags
    by (intro conjI ballI allI impI refl growingIdsWhere_subset)
      (simp_all add: rules owners bugs growingIdsWhere_member)
qed


theorem analyzeLands_afflictions_witness:
  "distinct (map land_id demoAfflicted) \<and>
   needWater (analyzeLands 100 (\<lambda>_. 0) demoAfflicted) = [1] \<and>
   needWeed (analyzeLands 100 (\<lambda>_. 0) demoAfflicted) = [2] \<and>
   needBug (analyzeLands 100 (\<lambda>_. 0) demoAfflicted) = [3] \<and>
   set (needWater (analyzeLands 100 (\<lambda>_. 0) demoAfflicted))
     \<subseteq> set (growing (analyzeLands 100 (\<lambda>_. 0) demoAfflicted))"
proof -
  from analyzeLands_afflictions [of 100 "\<lambda>_. 0" demoAfflicted]
  have eqs: "needWater (analyzeLands 100 (\<lambda>_. 0) demoAfflicted) =
        growingIdsWhere 100 (wantsWater 100) demoAfflicted"
      "needWeed (analyzeLands 100 (\<lambda>_. 0) demoAfflicted) =
        growingIdsWhere 100 (wantsWeeding 100) demoAfflicted"
      "needBug (analyzeLands 100 (\<lambda>_. 0) demoAfflicted) =
        growingIdsWhere 100 (wantsBugKill 100) demoAfflicted"
    and sub: "set (needWater (analyzeLands 100 (\<lambda>_. 0) demoAfflicted))
        \<subseteq> set (growing (analyzeLands 100 (\<lambda>_. 0) demoAfflicted))"
    unfolding Let_def by blast+
  have vals: "growingIdsWhere 100 (wantsWater 100) demoAfflicted = [1]"
    "growingIdsWhere 100 (wantsWeeding 100) demoAfflicted = [2]"
    "growingIdsWhere 100 (wantsBugKill 100) demoAfflicted = [3]"
    by (simp_all add: demoAfflicted_def growingIdsWhere_def landCategory_def currentPhaseOf_def
        wantsWater_def wantsWeeding_def wantsBugKill_def thresholdPassed_def
        getCurrentPhase_def mkLand_def mkPlant_def mkPhase_def)
  have "distinct (map land_id demoAfflicted)"
    by (simp add: demoAfflicted_def mkLand_def)
  with eqs vals sub show ?thesis by simp
qed

section \<open>Verification: yield optimizer\<close>

lemma plantSeconds_values:
  "plantSecondsNoFert n = real_of_int n / 9"
  "plantSecondsNormalFert n = real_of_int n / 6"
  by (simp_all add: plantSecondsNoFert_def plantSecondsNormalFert_def
      NO_FERT_PLANT_SPEED_PER_SEC_def NORMAL_FERT_PLANT_SPEED_PER_SEC_def
      NO_FERT_PLANTS_PER_2_SEC_def NORMAL_FERT_PLANTS_PER_2_SEC_def)

lemma calcEffectiveGrowTime_value:
  "calcEffectiveGrowTime g = max 1 (g - max (g * 2 / 10) 30)"
  by (simp add: calcEffectiveGrowTime_def FERT_PERCENT_def FERT_MIN_REDUCE_SEC_def)

lemma calcEffectiveGrowTime_unfloored:
  assumes "31 \<le> g"
  shows "calcEffectiveGrowTime g = g - max (g * 2 / 10) 30"
proof -
  have "1 \<le> g - max (g * 2 / 10) 30"
    using assms by (simp add: max_def)
  then show ?thesis
    by (simp add: calcEffectiveGrowTime_value)
qed

lemma cycleSec_pos:
  assumes "1 \<le> n" and "0 < growTimeSec sd"
  shows "0 < cycleSecNoFert n sd" and "0 < cycleSecNormalFert n sd"
proof -
  have "0 < real_of_int n" using assms(1) by simp
  then show "0 < cycleSecNoFert n sd"
    using assms(2) by (simp add: cycleSecNoFert_def plantSeconds_values)
  have "1 \<le> calcEffectiveGrowTime (growTimeSec sd)"
    by (simp add: calcEffectiveGrowTime_value)
  with \<open>0 < real_of_int n\<close> show "0 < cycleSecNormalFert n sd"
    by (simp add: cycleSecNormalFert_def plantSeconds_values)
qed

lemma buildSeedYieldRows_coherent:
  assumes "cacheCoherent rows c"
  shows "fst (buildSeedYieldRows rows c lands) =
           map (seedYieldRow (max 1 \<lfloor>lands\<rfloor>)) (filter seedUsable rows)"
    and "cacheCoherent rows (snd (buildSeedYieldRows rows c lands))"
  using assms by (auto simp: buildSeedYieldRows_def cacheCoherent_def Let_def)

text \<open>
  C5 (as amended). For every seed with positive grow time and every unlocked-plot count
  \<open>n \<ge> 1\<close>, the unfertilized cycle time is the grow time plus \<open>n / 9\<close> seconds, and
  the fertilized cycle time is the effective grow time plus \<open>n / 6\<close> seconds, where the
  effective grow time is the grow time less \<open>max (0.2 \<times> grow time, 30)\<close> but at least one
  second; from a grow time of 31 seconds on the floor of one second plays no part. Each
  experience-per-hour figure of the seed's row is \<open>n \<times> harvest experience / cycle time
  \<times> 3600\<close>. A seed with a grow time of 1200 seconds has the fertilized cycle time
  \<open>960 + n / 6\<close>. The rows that \<^verbatim>\<open>buildSeedYieldRows\<close> returns are these rows of the
  usable seeds, whether they come from the cache or are computed afresh.
\<close>

theorem seed_yield_formulas:
  "1 \<le> n \<and> 0 < growTimeSec sd \<longrightarrow>
     cycleSecNoFert n sd = growTimeSec sd + real_of_int n / 9 \<and>
     cycleSecNormalFert n sd =
       max 1 (growTimeSec sd - max (2 / 10 * growTimeSec sd) 30) + real_of_int n / 6 \<and>
     (31 \<le> growTimeSec sd \<longrightarrow>
        cycleSecNormalFert n sd =
          (growTimeSec sd - max (2 / 10 * growTimeSec sd) 30) + real_of_int n / 6) \<and>
     (growTimeSec sd = 1200 \<longrightarrow> cycleSecNormalFert n sd = 960 + real_of_int n / 6) \<and>
     farmExpPerHourNoFert (seedYieldRow n sd) =
       real_of_int n * expHarvest sd / cycleSecNoFert n sd * 3600 \<and>
     farmExpPerHourNormalFert (seedYieldRow n sd) =
       real_of_int n * expHarvest sd / cycleSecNormalFert n sd * 3600 \<and>
     seed (seedYieldRow n sd) = sd \<and>
     (cacheCoherent seedShopRows c \<longrightarrow>
        fst (buildSeedYieldRows seedShopRows c (real_of_int n)) =
          map (seedYieldRow n) (filter seedUsable seedShopRows) \<and>
        cacheCoherent seedShopRows (snd (buildSeedYieldRows seedShopRows c (real_of_int n))))"
proof (intro impI, elim conjE)
  assume n: "1 \<le> n" and g: "0 < growTimeSec sd"
  have a: "cycleSecNoFert n sd = growTimeSec sd + real_of_int n / 9"
    by (simp add: cycleSecNoFert_def plantSeconds_values)
  have b: "cycleSecNormalFert n sd =
       max 1 (growTimeSec sd - max (2 / 10 * growTimeSec sd) 30) + real_of_int n / 6"
    by (simp add: cycleSecNormalFert_def plantSeconds_values calcEffectiveGrowTime_value mult.commute)
  have c: "cycleSecNormalFert n sd =
          (growTimeSec sd - max (2 / 10 * growTimeSec sd) 30) + real_of_int n / 6"
    if "31 \<le> growTimeSec sd"
    using calcEffectiveGrowTime_unfloored [OF that]
    by (simp add: cycleSecNormalFert_def plantSeconds_values mult.commute)
  have d: "cycleSecNormalFert n sd = 960 + real_of_int n / 6" if "growTimeSec sd = 1200"
    using that by (simp add: b)
  have e: "farmExpPerHourNoFert (seedYieldRow n sd) =
       real_of_int n * expHarvest sd / cycleSecNoFert n sd * 3600"
    using cycleSec_pos(1) [OF n g] by (simp add: seedYieldRow_def Let_def)
  have f: "farmExpPerHourNormalFert (seedYieldRow n sd) =
       real_of_int n * expHarvest sd / cycleSecNormalFert n sd * 3600"
    using cycleSec_pos(2) [OF n g] by (simp add: seedYieldRow_def Let_def)
  have s: "seed (seedYieldRow n sd) = sd"
    by (simp add: seedYieldRow_def Let_def)
  have fl: "max 1 \<lfloor>real_of_int n\<rfloor> = n" using n by simp
  have h: "fst (buildSeedYieldRows seedShopRows c (real_of_int n)) =
          map (seedYieldRow n) (filter seedUsable seedShopRows) \<and>
        cacheCoherent seedShopRows (snd (buildSeedYieldRows seedShopRows c (real_of_int n)))"
    if "cacheCoherent seedShopRows c"
    using buildSeedYieldRows_coherent [OF that, of "real_of_int n"] by (simp only: fl)
  show "cycleSecNoFert n sd = growTimeSec sd + real_of_int n / 9 \<and>
     cycleSecNormalFert n sd =
       max 1 (growTimeSec sd - max (2 / 10 * growTimeSec sd) 30) + real_of_int n / 6 \<and>
     (31 \<le> growTimeSec sd \<longrightarrow>
        cycleSecNormalFert n sd =
          (growTimeSec sd - max (2 / 10 * growTimeSec sd) 30) + real_of_int n / 6) \<and>
     (growTimeSec sd = 1200 \<longrightarrow> cycleSecNormalFert n sd = 960 + real_of_int n / 6) \<and>
     farmExpPerHourNoFert (seedYieldRow n sd) =
       real_of_int n * expHarvest sd / cycleSecNoFert n sd * 3600 \<and>
     farmExpPerHourNormalFert (seedYieldRow n sd) =
       real_of_int n * expHarvest sd / cycleSecNormalFert n sd * 3600 \<and>
     seed (seedYieldRow n sd) = sd \<and>
     (cacheCoherent seedShopRows c \<longrightarrow>
        fst (buildSeedYieldRows seedShopRows c (real_of_int n)) =
          map (seedYieldRow n) (filter seedUsable seedShopRows) \<and>
        cacheCoherent seedShopRows (snd (buildSeedYieldRows seedShopRows c (real_of_int n))))"
    using a b c d e f s h by blast
qed

text \<open>
  C5 as stated fails for short grow times: for a seed that grows in 20 seconds and 6
  plots the code's fertilized cycle time is \<open>1 + 6 / 6 = 2\<close> seconds, while
  \<open>(20 - max (0.2 \<times> 20, 30)) + 6 / 6\<close> is \<open>- 9\<close>.
\<close>

theorem fertilized_cycle_counterexample:
  "0 < growTimeSec (mkSeed 1 20 10) \<and>
   cycleSecNormalFert 6 (mkSeed 1 20 10) = 2 \<and>
   (growTimeSec (mkSeed 1 20 10) - max (2 / 10 * growTimeSec (mkSeed 1 20 10)) 30) + 6 / 6 = - 9"
  by (simp add: cycleSecNormalFert_def plantSeconds_values calcEffectiveGrowTime_value mkSeed_def)

theorem seed_yield_formulas_witness:
  "(1::int) \<le> 10 \<and> 0 < growTimeSec (mkSeed 2 1200 30) \<and>
   cycleSecNoFert 10 (mkSeed 2 1200 30) = 1200 + 10 / 9 \<and>
   cycleSecNormalFert 10 (mkSeed 2 1200 30) = 960 + 10 / 6 \<and>
   farmExpPerHourNormalFert (seedYieldRow 10 (mkSeed 2 1200 30)) = 10 * 30 / (960 + 10 / 6) * 3600 \<and>
   cacheCoherent [mkSeed 2 1200 30] initialSeedYieldCache \<and>
   fst (buildSeedYieldRows [mkSeed 2 1200 30] initialSeedYieldCache 10) =
     [seedYieldRow 10 (mkSeed 2 1200 30)]"
proof -
  have h: "(1::int) \<le> 10 \<and> 0 < growTimeSec (mkSeed 2 1200 30)"
    by (simp add: mkSeed_def)
  have co: "cacheCoherent [mkSeed 2 1200 30] initialSeedYieldCache"
    by (simp add: cacheCoherent_def initialSeedYieldCache_def)
  have g: "growTimeSec (mkSeed 2 1200 30) = 1200" "expHarvest (mkSeed 2 1200 30) = 30"
    "seedUsable (mkSeed 2 1200 30)"
    by (simp_all add: mkSeed_def seedUsable_def)
  note t = seed_yield_formulas [of 10 "mkSeed 2 1200 30" "[mkSeed 2 1200 30]" initialSeedYieldCache,
      rule_format, OF h]
  from t have c1: "cycleSecNoFert 10 (mkSeed 2 1200 30) = 1200 + 10 / 9"
    by (simp add: g)
  from t g(1) have c2: "cycleSecNormalFert 10 (mkSeed 2 1200 30) = 960 + 10 / 6"
    by simp
  from t have "farmExpPerHourNormalFert (seedYieldRow 10 (mkSeed 2 1200 30)) =
      real_of_int 10 * expHarvest (mkSeed 2 1200 30) / cycleSecNormalFert 10 (mkSeed 2 1200 30) * 3600"
    by blast
  then have f: "farmExpPerHourNormalFert (seedYieldRow 10 (mkSeed 2 1200 30)) =
      10 * 30 / (960 + 10 / 6) * 3600"
    by (simp only: c2 g of_int_numeral)
  from t co have "fst (buildSeedYieldRows [mkSeed 2 1200 30] initialSeedYieldCache (real_of_int 10)) =
      map (seedYieldRow 10) (filter seedUsable [mkSeed 2 1200 30])"
    by blast
  then have r: "fst (buildSeedYieldRows [mkSeed 2 1200 30] initialSeedYieldCache 10) =
      [seedYieldRow 10 (mkSeed 2 1200 30)]"
    by (simp add: g)
  from h co c1 c2 f r show ?thesis by blast
qed

section \<open>Verification: the refresh decision\<close>

text \<open>
  C6. \<^verbatim>\<open>shouldCheckFarmNow\<close> returns true on the first check, when the forced flag
  is set, when there is no cached snapshot, when the cached snapshot has an empty, dead,
  harvestable, needs-water, needs-weed or needs-bug plot, and when the snapshot's
  minimum remaining time to maturity less the time elapsed since the snapshot is at
  most 2 seconds; in every other case it returns false.
\<close>

theorem shouldCheckFarmNow_iff:
  "shouldCheckFarmNow nowSec st =
     (isFirstFarmCheck st \<or> forceFarmCheck st \<or> lastFarmSnapshot st = None \<or>
      (\<exists>snap. lastFarmSnapshot st = Some snap \<and>
         (snapshotShowsWork snap \<or>
          (\<exists>r. extrapolatedRemaining nowSec snap = Some r \<and> r \<le> 2))))"
  by (auto simp: shouldCheckFarmNow_def snapshotShowsWork_def extrapolatedRemaining_def Let_def
      split: option.splits)

theorem shouldCheckFarmNow_iff_witness:
  "shouldCheckFarmNow 1050
     (initialFarmState\<lparr>isFirstFarmCheck := False,
        lastFarmSnapshot := Some (idleSnapshot (Some 100) 1000)\<rparr>) = False \<and>
   shouldCheckFarmNow 1098
     (initialFarmState\<lparr>isFirstFarmCheck := False,
        lastFarmSnapshot := Some (idleSnapshot (Some 100) 1000)\<rparr>) = True \<and>
   shouldCheckFarmNow 1098
     (initialFarmState\<lparr>isFirstFarmCheck := False,
        lastFarmSnapshot := Some (idleSnapshot None 1000)\<rparr>) = False \<and>
   shouldCheckFarmNow 0 initialFarmState = True"
  using shouldCheckFarmNow_iff [of 1050 "initialFarmState\<lparr>isFirstFarmCheck := False,
        lastFarmSnapshot := Some (idleSnapshot (Some 100) 1000)\<rparr>"]
    shouldCheckFarmNow_iff [of 1098 "initialFarmState\<lparr>isFirstFarmCheck := False,
        lastFarmSnapshot := Some (idleSnapshot (Some 100) 1000)\<rparr>"]
    shouldCheckFarmNow_iff [of 1098 "initialFarmState\<lparr>isFirstFarmCheck := False,
        lastFarmSnapshot := Some (idleSnapshot None 1000)\<rparr>"]
    shouldCheckFarmNow_iff [of 0 initialFarmState]
  by (simp add: initialFarmState_def idleSnapshot_def snapshotShowsWork_def extrapolatedRemaining_def)

section \<open>Verification: per-plot operations\<close>

lemma callSucceeds_0: "callSucceeds srv tr mk (l # rest) 0 = (srv tr (mk l) \<noteq> None)"
  by (simp add: callSucceeds_def)

lemma callSucceeds_Suc:
  "callSucceeds srv tr mk (l # rest) (Suc i) = callSucceeds srv (tr @ [mk l]) mk rest i"
  by (simp add: callSucceeds_def)

lemma fertilize_loop_stops:
  "j < length ids \<Longrightarrow>
   \<forall>i<j. callSucceeds srv tr (\<lambda>l. FertilizeReq l fid) ids i \<Longrightarrow>
   \<not> callSucceeds srv tr (\<lambda>l. FertilizeReq l fid) ids j \<Longrightarrow>
   fertilize_loop srv fid c tr ids = (c + j, tr @ map (\<lambda>l. FertilizeReq l fid) (take (Suc j) ids))"
proof (induction ids arbitrary: j c tr)
  case Nil
  then show ?case by simp
next
  case (Cons l rest)
  show ?case
  proof (cases j)
    case 0
    with Cons.prems(3) show ?thesis
      by (simp add: callSucceeds_0)
  next
    case (Suc j')
    with Cons.prems(2) have ok: "srv tr (FertilizeReq l fid) \<noteq> None"
      using callSucceeds_0 [of srv tr "\<lambda>l. FertilizeReq l fid" l rest] by auto
    have "j' < length rest" using Cons.prems(1) Suc by simp
    moreover have "\<forall>i<j'. callSucceeds srv (tr @ [FertilizeReq l fid]) (\<lambda>l. FertilizeReq l fid) rest i"
    proof (intro allI impI)
      fix i assume "i < j'"
      then have "callSucceeds srv tr (\<lambda>l. FertilizeReq l fid) (l # rest) (Suc i)"
        using Cons.prems(2) Suc by simp
      then show "callSucceeds srv (tr @ [FertilizeReq l fid]) (\<lambda>l. FertilizeReq l fid) rest i"
        using callSucceeds_Suc [of srv tr "\<lambda>l. FertilizeReq l fid" l rest i] by simp
    qed
    moreover have "\<not> callSucceeds srv (tr @ [FertilizeReq l fid]) (\<lambda>l. FertilizeReq l fid) rest j'"
      using Cons.prems(3) Suc callSucceeds_Suc [of srv tr "\<lambda>l. FertilizeReq l fid" l rest j']
      by simp
    ultimately have "fertilize_loop srv fid (c + 1) (tr @ [FertilizeReq l fid]) rest =
        (c + 1 + j', (tr @ [FertilizeReq l fid]) @ map (\<lambda>l. FertilizeReq l fid) (take (Suc j') rest))"
      by (rule Cons.IH)
    with ok Suc show ?thesis by auto
  qed
qed

lemma filter_upt_Suc:
  "filter P [0..<Suc n] = (if P 0 then [0] else []) @ map Suc (filter (\<lambda>i. P (Suc i)) [0..<n])"
proof -
  have "[0..<Suc n] = 0 # map Suc [0..<n]"
    by (simp add: upt_conv_Cons map_Suc_upt del: upt_Suc)
  then show ?thesis
    by (simp add: filter_map comp_def del: upt_Suc)
qed

lemma plantSeeds_loop_all:
  "plantSeeds_loop srv sid c w tr ids =
     (c + length (filter (callSucceeds srv tr (PlantReq sid) ids) [0..<length ids]),
      w @ map ((!) ids) (filter (\<lambda>i. \<not> callSucceeds srv tr (PlantReq sid) ids i) [0..<length ids]),
      tr @ map (PlantReq sid) ids)"
proof (induction ids arbitrary: c w tr)
  case Nil
  then show ?case by simp
next
  case (Cons l rest)
  show ?case
  proof (cases "srv tr (PlantReq sid l)")
    case None
    then show ?thesis
      using Cons.IH [of c "w @ [l]" "tr @ [PlantReq sid l]"]
      by (simp add: filter_upt_Suc callSucceeds_0 callSucceeds_Suc comp_def del: upt_Suc)
  next
    case (Some r)
    then show ?thesis
      using Cons.IH [of "c + 1" w "tr @ [PlantReq sid l]"]
      by (simp add: filter_upt_Suc callSucceeds_0 callSucceeds_Suc comp_def del: upt_Suc)
  qed
qed

lemma filter_upt_split:
  assumes "j < n" and "\<forall>i<j. P i" and "\<not> P j"
  shows "filter P [0..<n] = [0..<j] @ filter P [Suc j..<n]"
proof -
  have "[0..<n] = [0..<j] @ j # [Suc j..<n]"
    using assms(1) by (metis upt_add_eq_append upt_conv_Cons le0 less_imp_le_nat
        le_add_diff_inverse plus_nat.add_0)
  moreover have "filter P [0..<j] = [0..<j]"
    using assms(2) by (simp add: filter_id_conv)
  ultimately show ?thesis
    using assms(3) by simp
qed


text \<open>
  C7. Let the call for the plot id at position \<open>j\<close> (counted from 0, so the
  \<open>(j + 1)\<close>-th call) fail while the calls for all earlier ids succeed. Then
  \<^verbatim>\<open>fertilize\<close> stops at the failure: it returns the success count \<open>j\<close>, and the
  calls it has issued are those for the first \<open>j + 1\<close> ids, each once, so the failed
  call is not retried and the remaining ids are skipped. \<^verbatim>\<open>plantSeeds\<close> logs the
  failed plot id and continues: it issues one call for every id, and returns the number
  of all calls that succeeded, which is \<open>j\<close> plus the successes among the later ids.
\<close>

theorem per_plot_failure_handling:
  "(j < length ids \<and>
    (\<forall>i<j. callSucceeds srv tr (\<lambda>l. FertilizeReq l fid) ids i) \<and>
    \<not> callSucceeds srv tr (\<lambda>l. FertilizeReq l fid) ids j \<longrightarrow>
      fertilize srv tr ids fid = (j, tr @ map (\<lambda>l. FertilizeReq l fid) (take (Suc j) ids))) \<and>
   (j < length ids \<and>
    (\<forall>i<j. callSucceeds srv tr (PlantReq sid) ids i) \<and>
    \<not> callSucceeds srv tr (PlantReq sid) ids j \<longrightarrow>
      fst (plantSeeds srv tr sid ids) =
        j + length (filter (callSucceeds srv tr (PlantReq sid) ids) [Suc j..<length ids]) \<and>
      ids ! j \<in> set (fst (snd (plantSeeds srv tr sid ids)))) \<and>
   plantSeeds srv tr sid ids =
     (length (filter (callSucceeds srv tr (PlantReq sid) ids) [0..<length ids]),
      map ((!) ids) (filter (\<lambda>i. \<not> callSucceeds srv tr (PlantReq sid) ids i) [0..<length ids]),
      tr @ map (PlantReq sid) ids)"
proof (intro conjI impI)
  assume "j < length ids \<and>
    (\<forall>i<j. callSucceeds srv tr (\<lambda>l. FertilizeReq l fid) ids i) \<and>
    \<not> callSucceeds srv tr (\<lambda>l. FertilizeReq l fid) ids j"
  then show "fertilize srv tr ids fid = (j, tr @ map (\<lambda>l. FertilizeReq l fid) (take (Suc j) ids))"
    using fertilize_loop_stops [of j ids srv tr fid 0] by (simp add: fertilize_def)
next
  show all: "plantSeeds srv tr sid ids =
     (length (filter (callSucceeds srv tr (PlantReq sid) ids) [0..<length ids]),
      map ((!) ids) (filter (\<lambda>i. \<not> callSucceeds srv tr (PlantReq sid) ids i) [0..<length ids]),
      tr @ map (PlantReq sid) ids)"
    by (simp add: plantSeeds_def plantSeeds_loop_all)
  assume a: "j < length ids \<and>
    (\<forall>i<j. callSucceeds srv tr (PlantReq sid) ids i) \<and>
    \<not> callSucceeds srv tr (PlantReq sid) ids j"
  then have "filter (callSucceeds srv tr (PlantReq sid) ids) [0..<length ids] =
      [0..<j] @ filter (callSucceeds srv tr (PlantReq sid) ids) [Suc j..<length ids]"
    by (intro filter_upt_split) simp_all
  then show "fst (plantSeeds srv tr sid ids) =
        j + length (filter (callSucceeds srv tr (PlantReq sid) ids) [Suc j..<length ids])"
    by (simp add: all)
  from a have "j \<in> set (filter (\<lambda>i. \<not> callSucceeds srv tr (PlantReq sid) ids i) [0..<length ids])"
    by simp
  then show "ids ! j \<in> set (fst (snd (plantSeeds srv tr sid ids)))"
    unfolding all by (simp only: fst_conv snd_conv set_map) (rule imageI)
qed

theorem per_plot_failure_handling_witness:
  "fertilize rejectPlot2 [] [1, 2, 3] NORMAL_FERTILIZER_ID =
     (1, [FertilizeReq 1 NORMAL_FERTILIZER_ID, FertilizeReq 2 NORMAL_FERTILIZER_ID]) \<and>
   plantSeeds rejectPlot2 [] 20002 [1, 2, 3] =
     (2, [2], [PlantReq 20002 1, PlantReq 20002 2, PlantReq 20002 3])"
proof -
  have up: "[0..<length [1::int, 2, 3]] = [0, 1, 2]" "[Suc 1..<length [1::int, 2, 3]] = [2]"
    by (simp_all add: upt_rec)
  note t = per_plot_failure_handling [of 1 "[1, 2, 3]" rejectPlot2 "[]" NORMAL_FERTILIZER_ID 20002]
  have f: "fertilize rejectPlot2 [] [1, 2, 3] NORMAL_FERTILIZER_ID =
     (1, [] @ map (\<lambda>l. FertilizeReq l NORMAL_FERTILIZER_ID) (take (Suc 1) [1, 2, 3]))"
    by (rule t [THEN conjunct1, rule_format]) (simp add: callSucceeds_def rejectPlot2_def)
  have p: "plantSeeds rejectPlot2 [] 20002 [1, 2, 3] =
     (length (filter (callSucceeds rejectPlot2 [] (PlantReq 20002) [1, 2, 3]) [0..<length [1::int, 2, 3]]),
      map ((!) [1, 2, 3])
        (filter (\<lambda>i. \<not> callSucceeds rejectPlot2 [] (PlantReq 20002) [1, 2, 3] i) [0..<length [1::int, 2, 3]]),
      [] @ map (PlantReq 20002) [1, 2, 3])"
    by (rule t [THEN conjunct2, THEN conjunct2])
  from f have f': "fertilize rejectPlot2 [] [1, 2, 3] NORMAL_FERTILIZER_ID =
     (1, [FertilizeReq 1 NORMAL_FERTILIZER_ID, FertilizeReq 2 NORMAL_FERTILIZER_ID])"
    by (simp add: numeral_2_eq_2)
  from p have p': "plantSeeds rejectPlot2 [] 20002 [1, 2, 3] =
     (2, [2], [PlantReq 20002 1, PlantReq 20002 2, PlantReq 20002 3])"
    unfolding up by (simp add: callSucceeds_def rejectPlot2_def)
  from f' p' show ?thesis by simp
qed

section \<open>Verification: the replant pipeline\<close>

lemma fertilize_loop_trace:
  "\<exists>k. snd (fertilize_loop srv fid c tr ids) = tr @ map (\<lambda>l. FertilizeReq l fid) (take k ids)"
proof (induction ids arbitrary: c tr)
  case Nil
  then show ?case by simp
next
  case (Cons l rest)
  show ?case
  proof (cases "srv tr (FertilizeReq l fid)")
    case None
    then show ?thesis
      by (intro exI [of _ "Suc 0"]) simp
  next
    case (Some r)
    from Cons.IH [of "c + 1" "tr @ [FertilizeReq l fid]"] obtain k where
      "snd (fertilize_loop srv fid (c + 1) (tr @ [FertilizeReq l fid]) rest) =
         (tr @ [FertilizeReq l fid]) @ map (\<lambda>l. FertilizeReq l fid) (take k rest)" ..
    with Some show ?thesis
      by (intro exI [of _ "Suc k"]) simp
  qed
qed

lemma plantSeeds_trace: "snd (snd (plantSeeds srv tr sid ids)) = tr @ map (PlantReq sid) ids"
proof -
  have "snd (snd (plantSeeds_loop srv sid c w tr ids)) = tr @ map (PlantReq sid) ids" for c w
    by (induction ids arbitrary: c w tr) (simp_all split: option.splits)
  then show ?thesis by (simp add: plantSeeds_def)
qed

lemma planted_of_plants: "concat (map (plantedPlot \<circ> PlantReq sid) ids) = ids"
  by (induction ids) simp_all

lemma planted_of_fertilizes: "concat (map (plantedPlot \<circ> (\<lambda>l. FertilizeReq l fid)) ids) = []"
  by (induction ids) simp_all

lemma bought_of_plants: "concat (map (boughtNumber \<circ> PlantReq sid) ids) = []"
  by (induction ids) simp_all

lemma bought_of_fertilizes: "concat (map (boughtNumber \<circ> (\<lambda>l. FertilizeReq l fid)) ids) = []"
  by (induction ids) simp_all

lemma buyPlantFertilize_trace:
  "\<exists>rest. snd (buyPlantFertilize srv state tr bs lands) =
      tr @ BuyGoodsReq (best_goodsId bs) (int (length lands)) (best_price bs) # rest \<and>
      (concat (map plantedPlot rest) = [] \<or> concat (map plantedPlot rest) = lands) \<and>
      concat (map boughtNumber rest) = []"
proof (cases "srv tr (BuyGoodsReq (best_goodsId bs) (int (length lands)) (best_price bs))")
  case None
  then show ?thesis
    by (intro exI [of _ "[]"]) (simp add: buyPlantFertilize_def)
next
  case (Some r)
  define buy where "buy = BuyGoodsReq (best_goodsId bs) (int (length lands)) (best_price bs)"
  define a where "a = (case get_items r of [] \<Rightarrow> best_seedId bs
      | gotItem # others \<Rightarrow> if 0 < fst gotItem then fst gotItem else best_seedId bs)"
  define planted where "planted = fst (plantSeeds srv (tr @ [buy]) a lands)"
  have tr': "snd (snd (plantSeeds srv (tr @ [buy]) a lands)) = tr @ buy # map (PlantReq a) lands"
    by (simp add: plantSeeds_trace)
  show ?thesis
  proof (cases "0 < planted \<and> take planted lands \<noteq> []")
    case True
    obtain k where k: "snd (fertilize srv (tr @ buy # map (PlantReq a) lands) (take planted lands)
          NORMAL_FERTILIZER_ID) =
        (tr @ buy # map (PlantReq a) lands) @
          map (\<lambda>l. FertilizeReq l NORMAL_FERTILIZER_ID) (take k (take planted lands))"
      unfolding fertilize_def using fertilize_loop_trace by blast
    have "snd (buyPlantFertilize srv state tr bs lands) =
        tr @ buy # (map (PlantReq a) lands @
          map (\<lambda>l. FertilizeReq l NORMAL_FERTILIZER_ID) (take k (take planted lands)))"
      using Some True k tr'
      by (simp add: buyPlantFertilize_def Let_def buy_def [symmetric] a_def [symmetric]
          planted_def [symmetric])
    then show ?thesis
      unfolding buy_def
      by (intro exI [of _ "map (PlantReq a) lands @
          map (\<lambda>l. FertilizeReq l NORMAL_FERTILIZER_ID) (take k (take planted lands))"])
        (simp add: planted_of_plants planted_of_fertilizes bought_of_plants bought_of_fertilizes)
  next
    case False
    then have "snd (buyPlantFertilize srv state tr bs lands) = tr @ buy # map (PlantReq a) lands"
      using Some tr'
      by (auto simp: buyPlantFertilize_def Let_def buy_def [symmetric] a_def [symmetric]
          planted_def [symmetric])
    then show ?thesis
      unfolding buy_def
      by (intro exI [of _ "map (PlantReq a) lands"])
        (simp add: planted_of_plants bought_of_plants)
  qed
qed

text \<open>
  C8. In the replant pipeline, let a seed be chosen for a non-empty list of plots to
  plant, and let its total cost exceed the gold at hand. If the affordable quantity
  \<open>floor (gold / price)\<close> is zero (or less), \<^verbatim>\<open>autoPlantEmptyLands\<close> returns at
  once: the trace is the one left by the seed choice, so no purchase and no planting
  call is issued, and the gold is unchanged. Otherwise the plots to plant are cut down
  to the first \<open>floor (gold / price)\<close> of them: the next call is the purchase of that
  many seeds (for a positive price fewer than the plots that need planting), no other
  purchase follows, and the plots planted after it, if the purchase succeeds, are
  exactly those first plots.
\<close>

theorem replant_clamped_to_gold:
  "landsToReplant deadLandIds emptyLandIds \<noteq> [] \<and>
   chooseSeed (traceAfterClear tr deadLandIds) (landsToReplant deadLandIds emptyLandIds) =
     (Some (Some bestSeed), trc) \<and>
   gold state <
     best_price bestSeed * int (length (landsToReplant deadLandIds emptyLandIds)) \<longrightarrow>
     (gold state div best_price bestSeed \<le> 0 \<longrightarrow>
        autoPlantEmptyLands srv chooseSeed state tr deadLandIds emptyLandIds = (state, trc)) \<and>
     (0 < gold state div best_price bestSeed \<longrightarrow>
        autoPlantEmptyLands srv chooseSeed state tr deadLandIds emptyLandIds =
          buyPlantFertilize srv state trc bestSeed
            (take (nat (gold state div best_price bestSeed))
               (landsToReplant deadLandIds emptyLandIds)) \<and>
        (\<exists>rest.
           snd (autoPlantEmptyLands srv chooseSeed state tr deadLandIds emptyLandIds) =
             trc @ BuyGoodsReq (best_goodsId bestSeed)
                     (min (int (length (landsToReplant deadLandIds emptyLandIds)))
                          (gold state div best_price bestSeed))
                     (best_price bestSeed) # rest \<and>
           (concat (map plantedPlot rest) = [] \<or>
            concat (map plantedPlot rest) =
              take (nat (gold state div best_price bestSeed))
                (landsToReplant deadLandIds emptyLandIds)) \<and>
           concat (map boughtNumber rest) = []) \<and>
        (0 < best_price bestSeed \<longrightarrow>
           gold state div best_price bestSeed <
             int (length (landsToReplant deadLandIds emptyLandIds))))"
proof (intro impI, elim conjE)
  let ?lands = "landsToReplant deadLandIds emptyLandIds"
  let ?canBuy = "gold state div best_price bestSeed"
  assume ne: "?lands \<noteq> []"
    and ch: "chooseSeed (traceAfterClear tr deadLandIds) ?lands = (Some (Some bestSeed), trc)"
    and cost: "gold state < best_price bestSeed * int (length ?lands)"
  have lands: "(if deadLandIds \<noteq> [] then emptyLandIds @ deadLandIds else emptyLandIds) = ?lands"
    by (simp add: landsToReplant_def)
  have auto_eq: "autoPlantEmptyLands srv chooseSeed state tr deadLandIds emptyLandIds =
      (case clampToGold state bestSeed ?lands of
         None \<Rightarrow> (state, trc)
       | Some ls \<Rightarrow> buyPlantFertilize srv state trc bestSeed ls)"
    using ne ch
    by (simp add: autoPlantEmptyLands_def Let_def lands traceAfterClear_def [symmetric])
  have abort: "autoPlantEmptyLands srv chooseSeed state tr deadLandIds emptyLandIds = (state, trc)"
    if "?canBuy \<le> 0"
    using that cost by (simp add: auto_eq clampToGold_def Let_def)
  have go: "autoPlantEmptyLands srv chooseSeed state tr deadLandIds emptyLandIds =
      buyPlantFertilize srv state trc bestSeed (take (nat ?canBuy) ?lands)"
    if "0 < ?canBuy"
    using that cost by (simp add: auto_eq clampToGold_def Let_def)
  have len: "int (length (take (nat ?canBuy) ?lands)) = min (int (length ?lands)) ?canBuy"
    if "0 < ?canBuy"
    using that by (simp add: of_nat_min)
  have tr: "\<exists>rest.
           snd (autoPlantEmptyLands srv chooseSeed state tr deadLandIds emptyLandIds) =
             trc @ BuyGoodsReq (best_goodsId bestSeed) (min (int (length ?lands)) ?canBuy)
                     (best_price bestSeed) # rest \<and>
           (concat (map plantedPlot rest) = [] \<or>
            concat (map plantedPlot rest) = take (nat ?canBuy) ?lands) \<and>
           concat (map boughtNumber rest) = []"
    if "0 < ?canBuy"
    using buyPlantFertilize_trace [of srv state trc bestSeed "take (nat ?canBuy) ?lands"]
    unfolding go [OF that] len [OF that] .
  have less: "?canBuy < int (length ?lands)" if "0 < best_price bestSeed"
  proof -
    have "?canBuy * best_price bestSeed + gold state mod best_price bestSeed = gold state"
      by simp
    moreover have "0 \<le> gold state mod best_price bestSeed"
      using that by simp
    ultimately have "?canBuy * best_price bestSeed \<le> gold state"
      by linarith
    then have "?canBuy * best_price bestSeed < int (length ?lands) * best_price bestSeed"
      using cost by (simp add: mult.commute)
    with that show ?thesis by (simp add: mult_less_cancel_right)
  qed
  show "(?canBuy \<le> 0 \<longrightarrow>
        autoPlantEmptyLands srv chooseSeed state tr deadLandIds emptyLandIds = (state, trc)) \<and>
     (0 < ?canBuy \<longrightarrow>
        autoPlantEmptyLands srv chooseSeed state tr deadLandIds emptyLandIds =
          buyPlantFertilize srv state trc bestSeed (take (nat ?canBuy) ?lands) \<and>
        (\<exists>rest.
           snd (autoPlantEmptyLands srv chooseSeed state tr deadLandIds emptyLandIds) =
             trc @ BuyGoodsReq (best_goodsId bestSeed) (min (int (length ?lands)) ?canBuy)
                     (best_price bestSeed) # rest \<and>
           (concat (map plantedPlot rest) = [] \<or>
            concat (map plantedPlot rest) = take (nat ?canBuy) ?lands) \<and>
           concat (map boughtNumber rest) = []) \<and>
        (0 < best_price bestSeed \<longrightarrow> ?canBuy < int (length ?lands)))"
    using abort go tr less by blast
qed


theorem replant_clamped_to_gold_witness:
  "autoPlantEmptyLands rejectPlot2 seedAt10 \<lparr>gid = 1, level = 5, gold = 5\<rparr> [] [3] [1, 4, 5] =
     (\<lparr>gid = 1, level = 5, gold = 5\<rparr>, [RemovePlantReq [3]]) \<and>
   autoPlantEmptyLands rejectPlot2 seedAt10 \<lparr>gid = 1, level = 5, gold = 25\<rparr> [] [3] [1, 4, 5] =
     (\<lparr>gid = 1, level = 5, gold = 5\<rparr>,
      [RemovePlantReq [3], BuyGoodsReq 7 2 10, PlantReq 20002 1, PlantReq 20002 4,
       FertilizeReq 1 1011, FertilizeReq 4 1011])"
proof -
  let ?bs = "\<lparr>best_seedId = 20002, best_goodsId = 7, best_price = 10\<rparr>"
  have hyp: "landsToReplant [3] [1, 4, 5] \<noteq> [] \<and>
      seedAt10 (traceAfterClear [] [3]) (landsToReplant [3] [1, 4, 5]) =
        (Some (Some ?bs), [RemovePlantReq [3]]) \<and>
      gold \<lparr>gid = 1, level = 5, gold = g\<rparr> < best_price ?bs * int (length (landsToReplant [3] [1, 4, 5]))"
    if "g < 40" for g
    using that by (simp add: landsToReplant_def traceAfterClear_def seedAt10_def)
  have a: "autoPlantEmptyLands rejectPlot2 seedAt10 \<lparr>gid = 1, level = 5, gold = 5\<rparr> [] [3] [1, 4, 5] =
     (\<lparr>gid = 1, level = 5, gold = 5\<rparr>, [RemovePlantReq [3]])"
    using replant_clamped_to_gold [where deadLandIds = "[3]" and emptyLandIds = "[1, 4, 5]"
        and chooseSeed = seedAt10 and tr = "[]" and bestSeed = ?bs and trc = "[RemovePlantReq [3]]"
        and state = "\<lparr>gid = 1, level = 5, gold = 5\<rparr>" and srv = rejectPlot2, rule_format,
        OF hyp [of 5], THEN conjunct1]
    by simp
  have "autoPlantEmptyLands rejectPlot2 seedAt10 \<lparr>gid = 1, level = 5, gold = 25\<rparr> [] [3] [1, 4, 5] =
      buyPlantFertilize rejectPlot2 \<lparr>gid = 1, level = 5, gold = 25\<rparr> [RemovePlantReq [3]] ?bs
        (take (nat (gold \<lparr>gid = 1, level = 5, gold = 25\<rparr> div best_price ?bs))
          (landsToReplant [3] [1, 4, 5]))"
    using replant_clamped_to_gold [where deadLandIds = "[3]" and emptyLandIds = "[1, 4, 5]"
        and chooseSeed = seedAt10 and tr = "[]" and bestSeed = ?bs and trc = "[RemovePlantReq [3]]"
        and state = "\<lparr>gid = 1, level = 5, gold = 25\<rparr>" and srv = rejectPlot2, rule_format,
        OF hyp [of 25], THEN conjunct2]
    by simp
  also have "\<dots> = (\<lparr>gid = 1, level = 5, gold = 5\<rparr>,
      [RemovePlantReq [3], BuyGoodsReq 7 2 10, PlantReq 20002 1, PlantReq 20002 4,
       FertilizeReq 1 1011, FertilizeReq 4 1011])"
    by (simp add: buyPlantFertilize_def landsToReplant_def plantSeeds_def fertilize_def
        rejectPlot2_def NORMAL_FERTILIZER_ID_def Let_def numeral_2_eq_2)
  finally show ?thesis using a by simp
qed

section \<open>Verification: the cycle guard\<close>

lemma checkFarm_enter_guard:
  "guardAgrees st \<Longrightarrow> guardAgrees (checkFarm_enter hasGid nowSec st)"
  by (simp add: checkFarm_enter_def guardAgrees_def Let_def)

lemma checkFarm_refresh_guard:
  "guardAgrees st \<Longrightarrow> guardAgrees (checkFarm_refresh nowSec dateNow g lands st)"
  by (simp add: checkFarm_refresh_def guardAgrees_def Let_def)

lemma checkFarm_finally_guard:
  "guardAgrees st \<Longrightarrow> 0 < cyclesInFlight st \<Longrightarrow> guardAgrees (checkFarm_finally how st)"
  by (simp add: checkFarm_finally_def guardAgrees_def split: if_splits)

lemma onLandsChangedPush_guard:
  "guardAgrees st \<Longrightarrow> guardAgrees (onLandsChangedPush now st)"
  by (simp add: onLandsChangedPush_def guardAgrees_def)

lemma farmStep_guard: "guardAgrees st \<Longrightarrow> guardAgrees (farmStep g st ev)"
  by (cases ev)
    (simp_all add: farmStep_def pushTimerFired_def checkFarm_enter_guard checkFarm_refresh_guard
      checkFarm_finally_guard onLandsChangedPush_guard)

lemma farmRun_guard: "guardAgrees st \<Longrightarrow> guardAgrees (farmRun g st evs)"
  unfolding farmRun_def by (induction evs arbitrary: st) (simp_all add: farmStep_guard)

lemma guardAgrees_le_1: "guardAgrees st \<Longrightarrow> cyclesInFlight st \<le> 1"
  by (simp add: guardAgrees_def split: if_splits)

lemma guardAgrees_initial: "guardAgrees initialFarmState"
  by (simp add: guardAgrees_def initialFarmState_def)

lemma farmStep_transitions:
  assumes "guardAgrees st" and "controllerState (farmStep g st ev) \<noteq> controllerState st"
  shows "(controllerState st = Idle \<and> controllerState (farmStep g st ev) = Checking \<and>
            cyclesInFlight st = 0 \<and> cyclesInFlight (farmStep g st ev) = 1 \<and>
            (\<exists>h n. ev = CheckFarm h n \<or> ev = PushTimer h n)) \<or>
         (controllerState st = Checking \<and> controllerState (farmStep g st ev) = Idle \<and>
            cyclesInFlight st = 1 \<and> cyclesInFlight (farmStep g st ev) = 0 \<and>
            (\<exists>how. ev = CycleEnds how))"
proof (cases ev)
  case (CheckFarm h n)
  with assms show ?thesis
    by (auto simp: farmStep_def controllerState_def guardAgrees_def checkFarm_enter_def Let_def
        split: if_splits)
next
  case (LandsArrived n d ls)
  with assms show ?thesis
    by (auto simp: farmStep_def controllerState_def checkFarm_refresh_def Let_def split: if_splits)
next
  case (CycleEnds how)
  with assms show ?thesis
    by (auto simp: farmStep_def controllerState_def guardAgrees_def checkFarm_finally_def
        split: if_splits)
next
  case (LandsChanged t)
  with assms show ?thesis
    by (auto simp: farmStep_def controllerState_def onLandsChangedPush_def split: if_splits)
next
  case (PushTimer h n)
  with assms show ?thesis
    by (auto simp: farmStep_def controllerState_def guardAgrees_def pushTimerFired_def
        checkFarm_enter_def Let_def split: if_splits)
qed

text \<open>
  C9. The farm-check cycle is mutually exclusive. In every state that the module reaches
  from its initial state, under any interleaving of its events, at most one cycle is in
  flight, and the guard flag is set exactly while one is. Calling \<^verbatim>\<open>checkFarm\<close>
  while the flag is set changes nothing. The end of a cycle, be it by return, by
  completion or by a caught error, clears the flag. The controller state changes only
  from \<open>Idle\<close> to \<open>Checking\<close>, by a call of \<^verbatim>\<open>checkFarm\<close> that starts the one
  cycle in flight, and from \<open>Checking\<close> to \<open>Idle\<close>, by the end of that cycle.
\<close>

theorem checkFarm_mutual_exclusion:
  "guardAgrees (farmRun g initialFarmState evs) \<and>
   cyclesInFlight (farmRun g initialFarmState evs) \<le> 1 \<and>
   (guardAgrees st \<longrightarrow>
      guardAgrees (farmRun g st evs) \<and> cyclesInFlight (farmRun g st evs) \<le> 1 \<and>
      (isCheckingFarm st \<longrightarrow>
         checkFarm_enter hasGid nowSec st = st \<and> pushTimerFired hasGid nowSec st = st) \<and>
      (0 < cyclesInFlight st \<longrightarrow>
         controllerState (checkFarm_finally how st) = Idle \<and>
         cyclesInFlight (checkFarm_finally how st) = 0) \<and>
      (controllerState (farmStep g st ev) \<noteq> controllerState st \<longrightarrow>
         (controllerState st = Idle \<and> controllerState (farmStep g st ev) = Checking \<and>
            cyclesInFlight st = 0 \<and> cyclesInFlight (farmStep g st ev) = 1 \<and>
            (\<exists>h n. ev = CheckFarm h n \<or> ev = PushTimer h n)) \<or>
         (controllerState st = Checking \<and> controllerState (farmStep g st ev) = Idle \<and>
            cyclesInFlight st = 1 \<and> cyclesInFlight (farmStep g st ev) = 0 \<and>
            (\<exists>how. ev = CycleEnds how))))"
proof (intro conjI impI)
  show "guardAgrees (farmRun g initialFarmState evs)"
    by (rule farmRun_guard [OF guardAgrees_initial])
  then show "cyclesInFlight (farmRun g initialFarmState evs) \<le> 1"
    by (rule guardAgrees_le_1)
next
  assume inv: "guardAgrees st"
  show run: "guardAgrees (farmRun g st evs)"
    by (rule farmRun_guard [OF inv])
  show "cyclesInFlight (farmRun g st evs) \<le> 1"
    by (rule guardAgrees_le_1 [OF run])
  {
    assume "isCheckingFarm st"
    then show "checkFarm_enter hasGid nowSec st = st" "pushTimerFired hasGid nowSec st = st"
      by (simp_all add: checkFarm_enter_def pushTimerFired_def)
  }
  {
    assume "0 < cyclesInFlight st"
    with inv show "controllerState (checkFarm_finally how st) = Idle"
      "cyclesInFlight (checkFarm_finally how st) = 0"
      by (simp_all add: checkFarm_finally_def controllerState_def guardAgrees_def split: if_splits)
  }
  {
    assume "controllerState (farmStep g st ev) \<noteq> controllerState st"
    with inv show "(controllerState st = Idle \<and> controllerState (farmStep g st ev) = Checking \<and>
            cyclesInFlight st = 0 \<and> cyclesInFlight (farmStep g st ev) = 1 \<and>
            (\<exists>h n. ev = CheckFarm h n \<or> ev = PushTimer h n)) \<or>
         (controllerState st = Checking \<and> controllerState (farmStep g st ev) = Idle \<and>
            cyclesInFlight st = 1 \<and> cyclesInFlight (farmStep g st ev) = 0 \<and>
            (\<exists>how. ev = CycleEnds how))"
      by (rule farmStep_transitions)
  }
qed


theorem checkFarm_mutual_exclusion_witness:
  "guardAgrees initialFarmState \<and>
   controllerState (farmRun (\<lambda>_. 0) initialFarmState [CheckFarm True 0]) = Checking \<and>
   farmRun (\<lambda>_. 0) initialFarmState [CheckFarm True 0, CheckFarm True 1] =
     farmRun (\<lambda>_. 0) initialFarmState [CheckFarm True 0] \<and>
   cyclesInFlight (farmRun (\<lambda>_. 0) initialFarmState [CheckFarm True 0, CheckFarm True 1]) = 1 \<and>
   controllerState
     (farmRun (\<lambda>_. 0) initialFarmState [CheckFarm True 0, CheckFarm True 1, CycleEnds Errored]) = Idle \<and>
   cyclesInFlight
     (farmRun (\<lambda>_. 0) initialFarmState [CheckFarm True 0, CheckFarm True 1, CycleEnds Errored]) = 0"
proof -
  have i: "guardAgrees initialFarmState"
    by (simp add: guardAgrees_def initialFarmState_def)
  define s1 where "s1 = farmRun (\<lambda>_. 0) initialFarmState [CheckFarm True 0]"
  have s1: "isCheckingFarm s1" "cyclesInFlight s1 = 1"
    by (simp_all add: s1_def farmRun_def farmStep_def checkFarm_enter_def shouldCheckFarmNow_def
        initialFarmState_def Let_def)
  note t = checkFarm_mutual_exclusion [of "\<lambda>_. 0" "[CheckFarm True 0]" initialFarmState True 1 Errored,
      THEN conjunct2, THEN conjunct2, rule_format, OF i]
  from t have g1: "guardAgrees s1"
    unfolding s1_def by blast
  note u = checkFarm_mutual_exclusion [of "\<lambda>_. 0" "[]" s1 True 1 Errored,
      THEN conjunct2, THEN conjunct2, rule_format, OF g1]
  from u s1 have noop: "checkFarm_enter True 1 s1 = s1"
    by blast
  from u s1 have fin: "controllerState (checkFarm_finally Errored s1) = Idle"
    "cyclesInFlight (checkFarm_finally Errored s1) = 0"
    by simp_all
  have r2: "farmRun (\<lambda>_. 0) initialFarmState [CheckFarm True 0, CheckFarm True 1] = s1"
    using noop by (simp add: s1_def farmRun_def farmStep_def)
  have r3: "farmRun (\<lambda>_. 0) initialFarmState [CheckFarm True 0, CheckFarm True 1, CycleEnds Errored] =
      checkFarm_finally Errored s1"
    using noop s1(2) by (simp add: s1_def farmRun_def farmStep_def)
  show ?thesis
    unfolding r2 r3 using i s1 fin
    by (simp add: s1_def [symmetric] controllerState_def)
qed

section \<open>Verification: the push debounce\<close>

lemma onLandsChangedPush_spaced:
  "pushesSpaced st \<Longrightarrow> pushesSpaced (onLandsChangedPush now st)"
  by (auto simp: pushesSpaced_def onLandsChangedPush_def sorted_wrt_append list_all_iff)

lemma checkFarm_enter_pushes:
  "scheduledChecks (checkFarm_enter h n st) = scheduledChecks st"
  "lastPushTime (checkFarm_enter h n st) = lastPushTime st"
  by (simp_all add: checkFarm_enter_def Let_def)

lemma farmStep_spaced: "pushesSpaced st \<Longrightarrow> pushesSpaced (farmStep g st ev)"
proof (cases ev)
  case (LandsChanged t)
  assume "pushesSpaced st"
  with LandsChanged show ?thesis
    by (simp add: farmStep_def onLandsChangedPush_spaced)
qed (simp_all add: farmStep_def pushesSpaced_def pushTimerFired_def checkFarm_enter_pushes
    checkFarm_refresh_def checkFarm_finally_def Let_def)

lemma farmRun_spaced: "pushesSpaced st \<Longrightarrow> pushesSpaced (farmRun g st evs)"
  unfolding farmRun_def by (induction evs arbitrary: st) (simp_all add: farmStep_spaced)

text \<open>
  C10 (as amended). The push handler debounces land-change notifications. A
  \<^verbatim>\<open>landsChanged\<close> event is ignored when it arrives while a cycle is in flight or
  less than 500 ms after the last accepted event; otherwise it is accepted: it records
  its time, sets the forced flag and schedules one out-of-band check. An event that
  arrives less than 500 ms after an accepted one is ignored. Hence, in every state the
  module reaches, any two accepted events are at least 500 ms apart: of two events less
  than 500 ms apart at most one schedules a check and sets the forced flag.
\<close>

theorem push_debounce:
  "(isCheckingFarm st \<or> now - lastPushTime st < 500 \<longrightarrow> onLandsChangedPush now st = st) \<and>
   (\<not> isCheckingFarm st \<and> 500 \<le> now - lastPushTime st \<longrightarrow>
      onLandsChangedPush now st =
        st\<lparr>lastPushTime := now, forceFarmCheck := True,
           scheduledChecks := scheduledChecks st @ [now]\<rparr> \<and>
      (later - now < 500 \<longrightarrow>
         onLandsChangedPush later (onLandsChangedPush now st) = onLandsChangedPush now st)) \<and>
   (pushesSpaced st \<longrightarrow> pushesSpaced (farmRun g st evs)) \<and>
   sorted_wrt (\<lambda>a b. a + 500 \<le> b) (scheduledChecks (farmRun g initialFarmState evs))"
proof (intro conjI impI)
  assume "isCheckingFarm st \<or> now - lastPushTime st < 500"
  then show "onLandsChangedPush now st = st"
    by (auto simp: onLandsChangedPush_def)
next
  assume a: "\<not> isCheckingFarm st \<and> 500 \<le> now - lastPushTime st"
  then show acc: "onLandsChangedPush now st =
        st\<lparr>lastPushTime := now, forceFarmCheck := True,
           scheduledChecks := scheduledChecks st @ [now]\<rparr>"
    by (simp add: onLandsChangedPush_def)
  assume "later - now < 500"
  then show "onLandsChangedPush later (onLandsChangedPush now st) = onLandsChangedPush now st"
    unfolding acc by (simp add: onLandsChangedPush_def)
next
  assume "pushesSpaced st"
  then show "pushesSpaced (farmRun g st evs)"
    by (rule farmRun_spaced)
next
  have "pushesSpaced initialFarmState"
    by (simp add: pushesSpaced_def initialFarmState_def)
  then have "pushesSpaced (farmRun g initialFarmState evs)"
    by (rule farmRun_spaced)
  then show "sorted_wrt (\<lambda>a b. a + 500 \<le> b) (scheduledChecks (farmRun g initialFarmState evs))"
    by (simp add: pushesSpaced_def)
qed

text \<open>
  C10 as stated fails: of the events at 1000, 1400 and 1800 ms the second is ignored
  and the third is accepted, although it arrives less than 500 ms after the second.
  The debounce interval is measured from the last accepted event.
\<close>

theorem push_second_ignored_counterexample:
  "scheduledChecks
     (farmRun (\<lambda>_. 0) initialFarmState [LandsChanged 1000, LandsChanged 1400, LandsChanged 1800]) =
     [1000, 1800] \<and>
   (1800 :: int) - 1400 < 500"
  by (simp add: farmRun_def farmStep_def onLandsChangedPush_def initialFarmState_def)

theorem push_debounce_witness:
  "pushesSpaced initialFarmState \<and>
   onLandsChangedPush 1000 initialFarmState =
     initialFarmState\<lparr>lastPushTime := 1000, forceFarmCheck := True, scheduledChecks := [1000]\<rparr> \<and>
   onLandsChangedPush 1400 (onLandsChangedPush 1000 initialFarmState) =
     onLandsChangedPush 1000 initialFarmState \<and>
   pushesSpaced
     (farmRun (\<lambda>_. 0) initialFarmState [LandsChanged 1000, LandsChanged 1400, LandsChanged 1800])"
proof -
  have i: "pushesSpaced initialFarmState"
    by (simp add: pushesSpaced_def initialFarmState_def)
  have h: "\<not> isCheckingFarm initialFarmState \<and> 500 \<le> 1000 - lastPushTime initialFarmState"
    by (simp add: initialFarmState_def)
  note t = push_debounce [of initialFarmState 1000 1400 "\<lambda>_. 0"
      "[LandsChanged 1000, LandsChanged 1400, LandsChanged 1800]"]
  from t h have a: "onLandsChangedPush 1000 initialFarmState =
     initialFarmState\<lparr>lastPushTime := 1000, forceFarmCheck := True,
       scheduledChecks := scheduledChecks initialFarmState @ [1000]\<rparr>"
    by blast
  have b: "onLandsChangedPush 1400 (onLandsChangedPush 1000 initialFarmState) =
     onLandsChangedPush 1000 initialFarmState"
    by (rule t [THEN conjunct2, THEN conjunct1, rule_format, OF h, THEN conjunct2, rule_format]) simp
  from t i have c: "pushesSpaced
     (farmRun (\<lambda>_. 0) initialFarmState [LandsChanged 1000, LandsChanged 1400, LandsChanged 1800])"
    by blast
  have "scheduledChecks initialFarmState = []"
    by (simp add: initialFarmState_def)
  with a have a': "onLandsChangedPush 1000 initialFarmState =
     initialFarmState\<lparr>lastPushTime := 1000, forceFarmCheck := True, scheduledChecks := [1000]\<rparr>"
    by simp
  from i a' b c show ?thesis by blast
qed

end
